theory Spec2Isabelle
  imports Complex_Main
begin

section \<open>Tensors\<close>

text \<open>
  The notebook \<^verbatim>\<open>llm_with_kv_cache.ipynb\<close> computes on PyTorch tensors of 32-bit floats.
  The model below is in exact real arithmetic: a tensor of shape \<open>(batch, seq, hidden)\<close>
  is a list of \<open>batch\<close> matrices, a matrix a list of rows, a row a list of reals.
  Token ids are naturals. Rounding, NaN and infinities are outside the model; the
  \<open>-inf\<close> that \<^verbatim>\<open>masked_fill\<close> writes is the value \<open>None\<close> of \<open>real option\<close>.
  A tensor with an empty batch or an empty row has no recorded width here.

  The model has an error branch for every check of the source and of PyTorch that
  depends on the arguments of a call (the hidden states, the cache, the token ids). The
  parameters are taken to have the shapes their constructors give them, which the
  predicates \<open>wf_Linear\<close> to \<open>wf_Transformer\<close> below state; a mismatch among the
  parameters themselves has no error branch.

  All modules are in evaluation mode (\<^verbatim>\<open>model.eval()\<close>), where \<^verbatim>\<open>nn.Dropout\<close> is the
  identity.
\<close>

type_synonym vec = "real list"
type_synonym matrix = "real list list"
type_synonym tensor = "real list list list"
type_synonym kv = "tensor \<times> tensor"

datatype error = AssertionError | RuntimeError | IndexError

text \<open>\<^verbatim>\<open>t.shape[1]\<close> of a tensor or of a batch of id sequences.\<close>

definition size1 :: "'a list list \<Rightarrow> nat" where
  "size1 t = (case t of [] \<Rightarrow> 0 | m # _ \<Rightarrow> length m)"

definition dot :: "vec \<Rightarrow> vec \<Rightarrow> real" where
  "dot a b = sum_list (map2 (*) a b)"

text \<open>Elementwise \<^verbatim>\<open>x + y\<close> of two tensors of one shape.\<close>

definition tensor_add :: "tensor \<Rightarrow> tensor \<Rightarrow> tensor" where
  "tensor_add x y = map2 (map2 (map2 (+))) x y"

text \<open>\<^verbatim>\<open>nn.Dropout\<close> in evaluation mode.\<close>

definition dropout :: "tensor \<Rightarrow> tensor" where
  "dropout x = x"

text \<open>
  \<^verbatim>\<open>torch.cat([a, b], dim=1)\<close>: the batch sizes and the widths of the rows must agree,
  the lengths along dimension 1 add up.
\<close>

definition uniform_width :: "tensor \<Rightarrow> bool" where
  "uniform_width t =
     (case concat t of [] \<Rightarrow> True | r # rs \<Rightarrow> list_all (\<lambda>s. length s = length r) rs)"

definition cat_dim1 :: "tensor \<Rightarrow> tensor \<Rightarrow> error + tensor" where
  "cat_dim1 a b =
     (if length a = length b \<and> uniform_width (a @ b) then Inr (map2 (@) a b)
      else Inl RuntimeError)"

text \<open>
  \<^verbatim>\<open>w @ v\<close> for one batch element: \<open>w\<close> is \<open>(rows, n)\<close>, \<open>v\<close> is \<open>(n, cols)\<close>;
  \<^verbatim>\<open>torch.matmul\<close> raises when the inner sizes differ.
\<close>

definition ncols :: "matrix \<Rightarrow> nat" where
  "ncols v = (case v of [] \<Rightarrow> 0 | r # _ \<Rightarrow> length r)"

definition vecmat :: "vec \<Rightarrow> matrix \<Rightarrow> vec" where
  "vecmat w v = map (\<lambda>c. sum_list (map2 (\<lambda>a r. a * r ! c) w v)) [0..<ncols v]"

definition matmul :: "matrix \<Rightarrow> matrix \<Rightarrow> error + matrix" where
  "matmul w v =
     (if list_all (\<lambda>r. length r = length v) w then Inr (map (\<lambda>r. vecmat r v) w)
      else Inl RuntimeError)"

text \<open>The results of a list of steps: the first error, or the list of all values.\<close>

fun sequence :: "(error + 'a) list \<Rightarrow> error + 'a list" where
  "sequence [] = Inr []"
| "sequence (r # rs) =
     (case r of Inl e \<Rightarrow> Inl e
      | Inr v \<Rightarrow> (case sequence rs of Inl e \<Rightarrow> Inl e | Inr vs \<Rightarrow> Inr (v # vs)))"

section \<open>LayerNorm\<close>

text \<open>
  The notebook's own \<^verbatim>\<open>LayerNorm\<close> class. \<^verbatim>\<open>x.mean(dim=-1)\<close> is the mean of a row,
  \<^verbatim>\<open>x.std(dim=-1)\<close> the standard deviation with Bessel's correction (PyTorch's default).
  For a row of one element PyTorch's \<open>std\<close> is nan, which the reals do not have: the
  entries the model gives for such a row are not the code's, its shape and errors are.
\<close>

record LayerNorm =
  gamma :: "real list"
  beta :: "real list"
  eps :: real

definition mean :: "vec \<Rightarrow> real" where
  "mean x = sum_list x / real (length x)"

definition std :: "vec \<Rightarrow> real" where
  "std x = sqrt (sum_list (map (\<lambda>v. (v - mean x)\<^sup>2) x) / real (length x - 1))"

text \<open>
  An elementwise operation on the last dimension with PyTorch's broadcasting: two rows of
  one length are combined entry by entry, a row of length 1 is stretched to the other
  one, and any other pair of lengths raises.
\<close>

definition broadcast2 :: "(real \<Rightarrow> real \<Rightarrow> real) \<Rightarrow> vec \<Rightarrow> vec \<Rightarrow> error + vec" where
  "broadcast2 f a b =
     (if length a = length b then Inr (map2 f a b)
      else if length a = 1 then Inr (map (f (hd a)) b)
      else if length b = 1 then Inr (map (\<lambda>v. f v (hd b)) a)
      else Inl RuntimeError)"

text \<open>\<^verbatim>\<open>(x - mean) / (std + self.eps) * self.gamma + self.beta\<close> on one row.\<close>

definition LayerNorm_row :: "LayerNorm \<Rightarrow> vec \<Rightarrow> error + vec" where
  "LayerNorm_row nrm x =
     (case broadcast2 (*) (map (\<lambda>v. (v - mean x) / (std x + eps nrm)) x) (gamma nrm) of
        Inl e \<Rightarrow> Inl e
      | Inr y \<Rightarrow> broadcast2 (+) y (beta nrm))"

definition LayerNorm_forward :: "LayerNorm \<Rightarrow> tensor \<Rightarrow> error + tensor" where
  "LayerNorm_forward nrm x = sequence (map (\<lambda>s. sequence (map (LayerNorm_row nrm) s)) x)"

text \<open>
  PyTorch's \<^verbatim>\<open>nn.LayerNorm(hidden_size)\<close>, which \<^verbatim>\<open>Transformer.ln_f\<close> is: the variance is
  the biased one, and \<open>eps\<close> is added to it under the square root. The rows it gets in
  \<^verbatim>\<open>Transformer.forward\<close> have the width of the embedding tables and of the blocks'
  parameters, so its check of the width is one among the parameters.
\<close>

record nn_LayerNorm =
  nn_weight :: "real list"
  nn_bias :: "real list"
  nn_eps :: real

definition var_biased :: "vec \<Rightarrow> real" where
  "var_biased x = sum_list (map (\<lambda>v. (v - mean x)\<^sup>2) x) / real (length x)"

definition nn_LayerNorm_row :: "nn_LayerNorm \<Rightarrow> vec \<Rightarrow> vec" where
  "nn_LayerNorm_row nrm x =
     map (\<lambda>(v, g, b). (v - mean x) / sqrt (var_biased x + nn_eps nrm) * g + b)
       (zip x (zip (nn_weight nrm) (nn_bias nrm)))"

definition nn_LayerNorm_forward :: "nn_LayerNorm \<Rightarrow> tensor \<Rightarrow> tensor" where
  "nn_LayerNorm_forward nrm x = map (map (nn_LayerNorm_row nrm)) x"

section \<open>Linear\<close>

text \<open>
  \<^verbatim>\<open>nn.Linear\<close>: \<open>weight\<close> is \<open>(out_features, in_features)\<close>, applied to the last
  dimension. Every \<^verbatim>\<open>nn.Linear\<close> of the notebook gets rows whose width is fixed by the
  parameters before it (\<open>c_attn\<close> after the assertion on the width), so its check of
  \<open>in_features\<close> is one among the parameters.
\<close>

record Linear =
  weight :: "real list list"
  bias :: "real list"

definition Linear_row :: "Linear \<Rightarrow> vec \<Rightarrow> vec" where
  "Linear_row l x = map2 (\<lambda>w b. dot w x + b) (weight l) (bias l)"

definition Linear_forward :: "Linear \<Rightarrow> tensor \<Rightarrow> tensor" where
  "Linear_forward l x = map (map (Linear_row l)) x"

section \<open>SingleHeadSelfAttention\<close>

record SingleHeadSelfAttention =
  hidden_size :: nat
  c_attn :: Linear
  c_proj :: Linear

text \<open>\<^verbatim>\<open>torch.tril(torch.ones(1, n, n))\<close>, without its leading dimension of size 1.\<close>

definition tril_ones :: "nat \<Rightarrow> matrix" where
  "tril_ones n = map (\<lambda>i. map (\<lambda>j. if j \<le> i then 1 else 0) [0..<n]) [0..<n]"

text \<open>Python's \<^verbatim>\<open>m[-s:]\<close>: the last \<open>s\<close> rows, and all of them when \<open>s = 0\<close>.\<close>

definition last_rows :: "nat \<Rightarrow> 'a list \<Rightarrow> 'a list" where
  "last_rows s m = (if s = 0 then m else drop (length m - s) m)"

definition causal_mask :: "nat \<Rightarrow> nat \<Rightarrow> matrix" where
  "causal_mask total_len seq_len = last_rows seq_len (tril_ones total_len)"

text \<open>
  \<^verbatim>\<open>attn.masked_fill(mask == 0, float('-inf'))\<close> for one batch element; the mask must
  broadcast to the scores.
\<close>

definition masked_fill :: "matrix \<Rightarrow> matrix \<Rightarrow> error + real option list list" where
  "masked_fill msk a =
     (if length msk = length a
      then Inr (map2 (map2 (\<lambda>m s. if m = 0 then None else Some s)) msk a)
      else (case msk of
              [r] \<Rightarrow> Inr (map (map2 (\<lambda>m s. if m = 0 then None else Some s) r) a)
            | _ \<Rightarrow> Inl RuntimeError))"

text \<open>\<^verbatim>\<open>torch.softmax(attn, dim=-1)\<close> on one row; \<open>exp (-inf) = 0\<close>.\<close>

definition softmax :: "real option list \<Rightarrow> vec" where
  "softmax s =
     (let e = map (\<lambda>v. case v of None \<Rightarrow> 0 | Some a \<Rightarrow> exp a) s; z = sum_list e
      in map (\<lambda>v. v / z) e)"

text \<open>\<^verbatim>\<open>(q @ k.transpose(-2, -1)) / math.sqrt(hidden_size)\<close> for one batch element.\<close>

definition scores :: "nat \<Rightarrow> matrix \<Rightarrow> matrix \<Rightarrow> matrix" where
  "scores h q k = map (\<lambda>qi. map (\<lambda>kj. dot qi kj / sqrt (real h)) k) q"

text \<open>
  Mask, softmax and dropout for one batch element: the attention weights. \<open>total_len\<close> is
  \<^verbatim>\<open>attn.shape[-1]\<close>, the number of keys.
\<close>

definition attn_weights :: "nat \<Rightarrow> nat \<Rightarrow> matrix \<Rightarrow> matrix \<Rightarrow> error + matrix" where
  "attn_weights h seq_len q k =
     (let attn = scores h q k;
          total_len = length k;
          msk = causal_mask total_len seq_len
      in case masked_fill msk attn of
           Inl e \<Rightarrow> Inl e
         | Inr attn \<Rightarrow> Inr (map softmax attn))"

text \<open>\<^verbatim>\<open>attn @ v\<close> on the weights, for one batch element.\<close>

definition attend :: "nat \<Rightarrow> nat \<Rightarrow> matrix \<Rightarrow> matrix \<Rightarrow> matrix \<Rightarrow> error + matrix" where
  "attend h seq_len q k v =
     (case attn_weights h seq_len q k of
        Inl e \<Rightarrow> Inl e
      | Inr attn \<Rightarrow> matmul attn v)"

text \<open>
  \<^verbatim>\<open>SingleHeadSelfAttention.forward\<close>. The source returns \<open>proj_output\<close> alone when
  \<open>use_cache\<close> is false and the pair \<open>(proj_output, (k, v))\<close> when it is true; the
  model returns the pair always, and a caller in the stateless branch drops \<open>(k, v)\<close>.
  The batched products run over the batch index \<open>b\<close>; after \<^verbatim>\<open>torch.cat\<close> has
  succeeded, \<open>q\<close>, \<open>k\<close> and \<open>v\<close> have one batch size.
\<close>

definition SingleHeadSelfAttention_forward ::
  "SingleHeadSelfAttention \<Rightarrow> tensor \<Rightarrow> kv option \<Rightarrow> error + (tensor \<times> kv)" where
  "SingleHeadSelfAttention_forward a x past_kv =
     (let seq_len = size1 x in
      if \<not> list_all (list_all (\<lambda>r. length r = hidden_size a)) x then Inl AssertionError
      else
        let c_attn_output = Linear_forward (c_attn a) x;
            q = map (map (take (hidden_size a))) c_attn_output;
            k = map (map (\<lambda>r. take (hidden_size a) (drop (hidden_size a) r))) c_attn_output;
            v = map (map (\<lambda>r. take (hidden_size a) (drop (2 * hidden_size a) r))) c_attn_output
        in case (case past_kv of
                   None \<Rightarrow> Inr (k, v)
                 | Some (past_k, past_v) \<Rightarrow>
                     (case cat_dim1 past_k k of
                        Inl e \<Rightarrow> Inl e
                      | Inr k' \<Rightarrow>
                          (case cat_dim1 past_v v of
                             Inl e \<Rightarrow> Inl e
                           | Inr v' \<Rightarrow> Inr (k', v')))) of
             Inl e \<Rightarrow> Inl e
           | Inr (k, v) \<Rightarrow>
               (case sequence (map (\<lambda>b. attend (hidden_size a) seq_len (q ! b) (k ! b) (v ! b))
                                 [0..<length q]) of
                  Inl e \<Rightarrow> Inl e
                | Inr attn_output \<Rightarrow>
                    Inr (dropout (Linear_forward (c_proj a) attn_output), (k, v))))"

section \<open>MLP\<close>

text \<open>
  \<^verbatim>\<open>self.act = nn.GELU()\<close> is a field of the module (``or other activation functions'');
  the model takes the activation as a field, applied to every entry.
\<close>

record MLP =
  c_fc :: Linear
  act :: "real \<Rightarrow> real"
  mlp_c_proj :: Linear

definition MLP_forward :: "MLP \<Rightarrow> tensor \<Rightarrow> tensor" where
  "MLP_forward p x =
     (let x = Linear_forward (c_fc p) x;
          x = map (map (map (act p))) x;
          x = Linear_forward (mlp_c_proj p) x;
          x = dropout x
      in x)"

section \<open>DecoderBlock\<close>

record DecoderBlock =
  ln_1 :: LayerNorm
  attn :: SingleHeadSelfAttention
  ln_2 :: LayerNorm
  mlp :: MLP

text \<open>
  \<^verbatim>\<open>DecoderBlock.forward\<close>: with \<open>use_cache\<close> the attention gets \<open>past_kv\<close>, without it
  the attention is called as \<^verbatim>\<open>self.attn(x)\<close>, with no cache. The new \<open>(k, v)\<close> is
  returned in both cases here; the source returns it with \<open>use_cache\<close> only.
\<close>

definition DecoderBlock_forward ::
  "DecoderBlock \<Rightarrow> tensor \<Rightarrow> kv option \<Rightarrow> bool \<Rightarrow> error + (tensor \<times> kv)" where
  "DecoderBlock_forward b x past_kv use_cache =
     (case LayerNorm_forward (ln_1 b) x of
        Inl e \<Rightarrow> Inl e
      | Inr x \<Rightarrow>
          (case (if use_cache then SingleHeadSelfAttention_forward (attn b) x past_kv
                 else SingleHeadSelfAttention_forward (attn b) x None) of
             Inl e \<Rightarrow> Inl e
           | Inr (attn_output, new_kv) \<Rightarrow>
               (case LayerNorm_forward (ln_2 b) (tensor_add x attn_output) of
                  Inl e \<Rightarrow> Inl e
                | Inr x \<Rightarrow> Inr (tensor_add x (MLP_forward (mlp b) x), new_kv))))"

section \<open>Transformer\<close>

record Transformer =
  token_embed :: "real list list"
  position_embed :: "real list list"
  hidden_layers :: "DecoderBlock list"
  ln_f :: nn_LayerNorm
  language_head :: Linear

text \<open>\<^verbatim>\<open>nn.Embedding\<close>: a row of the table for every index; an index past the table raises.\<close>

definition Embedding_forward :: "real list list \<Rightarrow> nat list list \<Rightarrow> error + tensor" where
  "Embedding_forward table ids =
     (if list_all (list_all (\<lambda>i. i < length table)) ids then Inr (map (map ((!) table)) ids)
      else Inl IndexError)"

text \<open>
  \<^verbatim>\<open>past_len = past_kvs[0][0].shape[1] if past_kvs else 0\<close>: an empty list is false in
  Python, as \<open>None\<close> is.
\<close>

definition past_len :: "kv list option \<Rightarrow> nat" where
  "past_len past_kvs =
     (case past_kvs of None \<Rightarrow> 0 | Some [] \<Rightarrow> 0 | Some (kv0 # _) \<Rightarrow> size1 (fst kv0))"

text \<open>
  \<^verbatim>\<open>torch.arange(past_len, past_len + seq_len).unsqueeze(0)\<close>, a tensor of shape
  \<open>(1, seq_len)\<close>.
\<close>

definition position_ids :: "nat list list \<Rightarrow> kv list option \<Rightarrow> nat list list" where
  "position_ids input_ids past_kvs =
     [[past_len past_kvs ..< past_len past_kvs + size1 input_ids]]"

text \<open>
  \<^verbatim>\<open>self.token_embed(input_ids) + self.position_embed(position_ids)\<close>: the second operand,
  of shape \<open>(1, seq_len, hidden_size)\<close>, is broadcast over the batch.
\<close>

definition add_broadcast :: "tensor \<Rightarrow> tensor \<Rightarrow> tensor" where
  "add_broadcast x y = (case y of [p] \<Rightarrow> map (\<lambda>t. map2 (map2 (+)) t p) x | _ \<Rightarrow> tensor_add x y)"

text \<open>
  The loop over \<^verbatim>\<open>self.hidden_layers\<close>: \<open>i\<close> is the index of the next layer, \<open>new_kvs\<close>
  the list built so far. \<^verbatim>\<open>past_kvs[i]\<close> raises when the list is too short.
\<close>

fun layers_loop ::
  "DecoderBlock list \<Rightarrow> nat \<Rightarrow> tensor \<Rightarrow> kv list option \<Rightarrow> bool \<Rightarrow> kv list
     \<Rightarrow> error + (tensor \<times> kv list)" where
  "layers_loop [] i x past_kvs use_cache new_kvs = Inr (x, new_kvs)"
| "layers_loop (layer # rest) i x past_kvs use_cache new_kvs =
     (case (case past_kvs of
              None \<Rightarrow> Inr None
            | Some ps \<Rightarrow> if i < length ps then Inr (Some (ps ! i)) else Inl IndexError) of
        Inl e \<Rightarrow> Inl e
      | Inr past_kv \<Rightarrow>
          if use_cache then
            (case DecoderBlock_forward layer x past_kv True of
               Inl e \<Rightarrow> Inl e
             | Inr (x', new_kv) \<Rightarrow>
                 layers_loop rest (i + 1) x' past_kvs use_cache (new_kvs @ [new_kv]))
          else
            (case DecoderBlock_forward layer x None False of
               Inl e \<Rightarrow> Inl e
             | Inr (x', _) \<Rightarrow> layers_loop rest (i + 1) x' past_kvs use_cache new_kvs))"

text \<open>
  \<^verbatim>\<open>Transformer.forward\<close>: the logits, and \<open>new_kvs\<close>, which is \<open>None\<close> without
  \<open>use_cache\<close>.
\<close>

definition Transformer_forward ::
  "Transformer \<Rightarrow> nat list list \<Rightarrow> kv list option \<Rightarrow> bool
     \<Rightarrow> error + (tensor \<times> kv list option)" where
  "Transformer_forward m input_ids past_kvs use_cache =
     (case Embedding_forward (token_embed m) input_ids of
        Inl e \<Rightarrow> Inl e
      | Inr tok \<Rightarrow>
          (case Embedding_forward (position_embed m) (position_ids input_ids past_kvs) of
             Inl e \<Rightarrow> Inl e
           | Inr pos \<Rightarrow>
               let x = add_broadcast tok pos;
                   x = dropout x
               in (case layers_loop (hidden_layers m) 0 x past_kvs use_cache [] of
                     Inl e \<Rightarrow> Inl e
                   | Inr (x, new_kvs) \<Rightarrow>
                       (let x = nn_LayerNorm_forward (ln_f m) x;
                            logits = Linear_forward (language_head m) x
                        in Inr (logits, if use_cache then Some new_kvs else None)))))"

section \<open>Greedy decoding\<close>

text \<open>\<^verbatim>\<open>torch.argmax\<close> of a row: the first index of the largest entry; none for an empty row.\<close>

fun argmax_from :: "nat \<Rightarrow> real \<Rightarrow> nat \<Rightarrow> vec \<Rightarrow> nat" where
  "argmax_from best bv i [] = best"
| "argmax_from best bv i (x # xs) =
     (if bv < x then argmax_from i x (i + 1) xs else argmax_from best bv (i + 1) xs)"

definition argmax :: "vec \<Rightarrow> error + nat" where
  "argmax xs = (case xs of [] \<Rightarrow> Inl IndexError | x # rest \<Rightarrow> Inr (argmax_from 0 x 1 rest))"

text \<open>
  \<^verbatim>\<open>torch.argmax(logits[:, -1, :], dim=-1, keepdim=True)\<close>: for every batch element the
  argmax of the last position's logits; \<open>logits[:, -1, :]\<close> raises on an empty sequence.
\<close>

definition next_tokens :: "tensor \<Rightarrow> error + nat list" where
  "next_tokens logits =
     sequence (map (\<lambda>rows. if rows = [] then Inl IndexError else argmax (last rows)) logits)"

text \<open>\<^verbatim>\<open>torch.cat((input_ids, next_tokens), dim=-1)\<close>.\<close>

definition append_tokens :: "nat list list \<Rightarrow> nat list \<Rightarrow> nat list list" where
  "append_tokens ids toks = map2 (\<lambda>r t. r @ [t]) ids toks"

text \<open>The loop of \<^verbatim>\<open>greedy_decode\<close>, \<open>n\<close> iterations left.\<close>

fun greedy_loop :: "Transformer \<Rightarrow> nat \<Rightarrow> nat list list \<Rightarrow> error + nat list list" where
  "greedy_loop m 0 input_ids = Inr input_ids"
| "greedy_loop m (Suc n) input_ids =
     (case Transformer_forward m input_ids None False of
        Inl e \<Rightarrow> Inl e
      | Inr (logits, _) \<Rightarrow>
          (case next_tokens logits of
             Inl e \<Rightarrow> Inl e
           | Inr toks \<Rightarrow> greedy_loop m n (append_tokens input_ids toks)))"

text \<open>\<^verbatim>\<open>range(max_len - input_ids.size(1))\<close> is empty when the difference is negative.\<close>

definition greedy_decode :: "Transformer \<Rightarrow> nat list list \<Rightarrow> nat \<Rightarrow> error + nat list list" where
  "greedy_decode m input_ids max_len = greedy_loop m (max_len - size1 input_ids) input_ids"

text \<open>The loop of \<^verbatim>\<open>greedy_decode_with_kv_cache\<close>, \<open>n\<close> iterations left.\<close>

fun cached_loop ::
  "Transformer \<Rightarrow> nat \<Rightarrow> nat list list \<Rightarrow> kv list option \<Rightarrow> nat list list
     \<Rightarrow> error + nat list list" where
  "cached_loop m 0 input_ids past_kvs generated = Inr generated"
| "cached_loop m (Suc n) input_ids past_kvs generated =
     (case Transformer_forward m input_ids past_kvs True of
        Inl e \<Rightarrow> Inl e
      | Inr (logits, past_kvs') \<Rightarrow>
          (case next_tokens logits of
             Inl e \<Rightarrow> Inl e
           | Inr toks \<Rightarrow>
               cached_loop m n (map (\<lambda>t. [t]) toks) past_kvs' (append_tokens generated toks)))"

definition greedy_decode_with_kv_cache ::
  "Transformer \<Rightarrow> nat list list \<Rightarrow> nat \<Rightarrow> error + nat list list" where
  "greedy_decode_with_kv_cache m input_ids max_len =
     cached_loop m (max_len - size1 input_ids) input_ids None input_ids"

section \<open>Running the model in chunks\<close>

text \<open>
  The notebook compares the two modes with the loop
  \<^verbatim>\<open>for i in range(T): logits_step, past_kvs = model(input_ids[:, i:i+1], past_kvs=past_kvs, use_cache=True)\<close>
  and \<^verbatim>\<open>torch.cat(logits_cached, dim=1)\<close>. \<open>slices sizes ids\<close> cuts a batch of id sequences
  into consecutive chunks \<^verbatim>\<open>input_ids[:, a:b]\<close> of the given sizes, \<open>forward_chunks\<close> is the
  loop over the chunks, threading the cache, and \<open>cat_all\<close> the final concatenation.
\<close>

fun slices :: "nat list \<Rightarrow> 'a list list \<Rightarrow> 'a list list list" where
  "slices [] ids = []"
| "slices (s # ss) ids = map (take s) ids # slices ss (map (drop s) ids)"

fun forward_chunks ::
  "Transformer \<Rightarrow> nat list list list \<Rightarrow> kv list option
     \<Rightarrow> error + (tensor list \<times> kv list option)" where
  "forward_chunks m [] past_kvs = Inr ([], past_kvs)"
| "forward_chunks m (c # cs) past_kvs =
     (case Transformer_forward m c past_kvs True of
        Inl e \<Rightarrow> Inl e
      | Inr (logits_step, past_kvs') \<Rightarrow>
          (case forward_chunks m cs past_kvs' of
             Inl e \<Rightarrow> Inl e
           | Inr (logits_cached, final) \<Rightarrow> Inr (logits_step # logits_cached, final)))"

fun cat_all :: "tensor list \<Rightarrow> error + tensor" where
  "cat_all [] = Inl RuntimeError"
| "cat_all [t] = Inr t"
| "cat_all (t # u # ts) =
     (case cat_all (u # ts) of Inl e \<Rightarrow> Inl e | Inr r \<Rightarrow> cat_dim1 t r)"

section \<open>Shapes and row-level descriptions\<close>

text \<open>
  The definitions of this section are not part of the notebook; the theorems are stated
  with them. \<open>shape3 B T H x\<close> says that \<open>x\<close> is a tensor of shape \<open>(B, T, H)\<close>.
  \<open>wf_Linear\<close>, \<open>wf_attn\<close>, \<open>wf_LayerNorm\<close>, \<open>wf_MLP\<close>, \<open>wf_DecoderBlock\<close> and
  \<open>wf_Transformer\<close> say that the parameters have the shapes the constructors give
  them for \<open>hidden_size = H\<close>, with \<open>vocab_size = length (token_embed m)\<close> and
  \<open>max_seq_len = length (position_embed m)\<close>; \<open>ids_ok V B T ids\<close> that \<open>ids\<close> is a batch
  of \<open>B\<close> sequences of \<open>T\<close> ids below \<open>V\<close>; \<open>wf_kv B H p\<close> that a cache entry has
  batch size \<open>B\<close>, width \<open>H\<close> and keys and values of one length.
  \<open>wf_LayerNorm\<close> also asks for \<open>H \<ge> 2\<close> and \<open>eps > 0\<close>, and \<open>wf_Transformer\<close> for
  \<open>H \<ge> 1\<close> and a positive \<open>eps\<close> of \<open>ln_f\<close>: then no division is by zero, where
  PyTorch gives nan or an infinity.

  The other functions describe what the batched code computes for one batch element,
  row by row: \<open>arow h q ks vs\<close> is the attention of one query over the keys \<open>ks\<close> and
  values \<open>vs\<close> with no mask, \<open>attn_sample a pk pv xn\<close> the attention output for new rows
  \<open>xn\<close> after cached keys and values \<open>pk\<close>, \<open>pv\<close>, \<open>block_sample\<close> the same for a
  decoder block, \<open>layers_out\<close> and \<open>layers_kvs\<close> the hidden state and the new cache
  entries after the whole stack, \<open>full_logits\<close> and \<open>full_kvs\<close> the logits and the
  keys and values of one pass with no cache.
\<close>

definition arow :: "nat \<Rightarrow> vec \<Rightarrow> matrix \<Rightarrow> matrix \<Rightarrow> vec" where
  "arow h q ks vs = vecmat (softmax (map (\<lambda>kj. Some (dot q kj / sqrt (real h))) ks)) vs"

definition qrow :: "SingleHeadSelfAttention \<Rightarrow> vec \<Rightarrow> vec" where
  "qrow a r = take (hidden_size a) (Linear_row (c_attn a) r)"

definition krow :: "SingleHeadSelfAttention \<Rightarrow> vec \<Rightarrow> vec" where
  "krow a r = take (hidden_size a) (drop (hidden_size a) (Linear_row (c_attn a) r))"

definition vrow :: "SingleHeadSelfAttention \<Rightarrow> vec \<Rightarrow> vec" where
  "vrow a r = take (hidden_size a) (drop (2 * hidden_size a) (Linear_row (c_attn a) r))"

definition attend_rows :: "nat \<Rightarrow> nat \<Rightarrow> matrix \<Rightarrow> matrix \<Rightarrow> matrix \<Rightarrow> matrix" where
  "attend_rows h P q k v =
     map (\<lambda>j. arow h (q ! j) (take (Suc (P + j)) k) (take (Suc (P + j)) v)) [0..<length q]"

definition attn_sample :: "SingleHeadSelfAttention \<Rightarrow> matrix \<Rightarrow> matrix \<Rightarrow> matrix \<Rightarrow> matrix" where
  "attn_sample a pk pv xn =
     map (Linear_row (c_proj a))
       (attend_rows (hidden_size a) (length pk) (map (qrow a) xn)
          (pk @ map (krow a) xn) (pv @ map (vrow a) xn))"

definition attn_pure :: "SingleHeadSelfAttention \<Rightarrow> tensor \<Rightarrow> tensor \<Rightarrow> tensor \<Rightarrow> tensor" where
  "attn_pure a pk pv x = map (\<lambda>b. attn_sample a (pk ! b) (pv ! b) (x ! b)) [0..<length x]"

definition shape3 :: "nat \<Rightarrow> nat \<Rightarrow> nat \<Rightarrow> tensor \<Rightarrow> bool" where
  "shape3 B T H x = (length x = B \<and> list_all (\<lambda>s. length s = T \<and> list_all (\<lambda>r. length r = H) s) x)"

definition wf_Linear :: "nat \<Rightarrow> nat \<Rightarrow> Linear \<Rightarrow> bool" where
  "wf_Linear n_out n_in l =
     (length (weight l) = n_out \<and> length (bias l) = n_out \<and> list_all (\<lambda>w. length w = n_in) (weight l))"

definition wf_attn :: "nat \<Rightarrow> SingleHeadSelfAttention \<Rightarrow> bool" where
  "wf_attn H a = (hidden_size a = H \<and> wf_Linear (3 * H) H (c_attn a) \<and> wf_Linear H H (c_proj a))"

definition empty_cache :: "nat \<Rightarrow> tensor" where
  "empty_cache B = replicate B []"

definition wf_LayerNorm :: "nat \<Rightarrow> LayerNorm \<Rightarrow> bool" where
  "wf_LayerNorm H n = (2 \<le> H \<and> length (gamma n) = H \<and> length (beta n) = H \<and> 0 < eps n)"

definition wf_MLP :: "nat \<Rightarrow> MLP \<Rightarrow> bool" where
  "wf_MLP H p =
     (wf_Linear (length (bias (c_fc p))) H (c_fc p) \<and>
      wf_Linear H (length (bias (c_fc p))) (mlp_c_proj p))"

definition wf_DecoderBlock :: "nat \<Rightarrow> DecoderBlock \<Rightarrow> bool" where
  "wf_DecoderBlock H b =
     (wf_LayerNorm H (ln_1 b) \<and> wf_attn H (attn b) \<and> wf_LayerNorm H (ln_2 b) \<and> wf_MLP H (mlp b))"

text \<open>
  \<open>norm_row n x\<close> is the normalisation of a row that has the width of \<open>gamma\<close> and
  \<open>beta\<close>, entry by entry, and \<open>norm_rows\<close> that of every row of a tensor.
\<close>

definition norm_row :: "LayerNorm \<Rightarrow> vec \<Rightarrow> vec" where
  "norm_row nrm x =
     map (\<lambda>(v, g, b). (v - mean x) / (std x + eps nrm) * g + b)
       (zip x (zip (gamma nrm) (beta nrm)))"

definition norm_rows :: "LayerNorm \<Rightarrow> tensor \<Rightarrow> tensor" where
  "norm_rows nrm x = map (map (norm_row nrm)) x"

definition mlp_row :: "MLP \<Rightarrow> vec \<Rightarrow> vec" where
  "mlp_row p r = Linear_row (mlp_c_proj p) (map (act p) (Linear_row (c_fc p) r))"

definition block_post :: "DecoderBlock \<Rightarrow> vec \<Rightarrow> vec \<Rightarrow> vec" where
  "block_post b x1 a =
     (let x3 = norm_row (ln_2 b) (map2 (+) x1 a) in map2 (+) x3 (mlp_row (mlp b) x3))"

definition block_keys :: "DecoderBlock \<Rightarrow> matrix \<Rightarrow> matrix" where
  "block_keys b xn = map (krow (attn b)) (map (norm_row (ln_1 b)) xn)"

definition block_values :: "DecoderBlock \<Rightarrow> matrix \<Rightarrow> matrix" where
  "block_values b xn = map (vrow (attn b)) (map (norm_row (ln_1 b)) xn)"

definition block_sample :: "DecoderBlock \<Rightarrow> matrix \<Rightarrow> matrix \<Rightarrow> matrix \<Rightarrow> matrix" where
  "block_sample b pk pv xn =
     (let x1 = map (norm_row (ln_1 b)) xn
      in map2 (block_post b) x1 (attn_sample (attn b) pk pv x1))"

definition block_pure :: "DecoderBlock \<Rightarrow> tensor \<Rightarrow> tensor \<Rightarrow> tensor \<Rightarrow> tensor" where
  "block_pure b pk pv x = map (\<lambda>i. block_sample b (pk ! i) (pv ! i) (x ! i)) [0..<length x]"

definition block_kv :: "DecoderBlock \<Rightarrow> kv \<Rightarrow> tensor \<Rightarrow> kv" where
  "block_kv b p x =
     (map2 (@) (fst p) (map (block_keys b) x), map2 (@) (snd p) (map (block_values b) x))"

fun layers_out :: "DecoderBlock list \<Rightarrow> tensor \<Rightarrow> kv list \<Rightarrow> tensor" where
  "layers_out (b # bs) x (p # ps) = layers_out bs (block_pure b (fst p) (snd p) x) ps"
| "layers_out bs x ps = x"

fun layers_kvs :: "DecoderBlock list \<Rightarrow> tensor \<Rightarrow> kv list \<Rightarrow> kv list" where
  "layers_kvs (b # bs) x (p # ps) =
     block_kv b p x # layers_kvs bs (block_pure b (fst p) (snd p) x) ps"
| "layers_kvs bs x ps = []"

definition wf_kv :: "nat \<Rightarrow> nat \<Rightarrow> kv \<Rightarrow> bool" where
  "wf_kv B H p = (shape3 B (size1 (fst p)) H (fst p) \<and> shape3 B (size1 (fst p)) H (snd p))"

definition empty_kvs :: "nat \<Rightarrow> nat \<Rightarrow> kv list" where
  "empty_kvs n B = replicate n (empty_cache B, empty_cache B)"

definition kv_ok :: "nat \<Rightarrow> kv \<Rightarrow> bool" where
  "kv_ok B p = (length (fst p) = B \<and> list_all2 (\<lambda>a b. length a = length b) (fst p) (snd p))"

definition ids_ok :: "nat \<Rightarrow> nat \<Rightarrow> nat \<Rightarrow> nat list list \<Rightarrow> bool" where
  "ids_ok V B T ids =
     (length ids = B \<and> list_all (\<lambda>r. length r = T \<and> list_all (\<lambda>t. t < V) r) ids)"

definition wf_Transformer :: "nat \<Rightarrow> Transformer \<Rightarrow> bool" where
  "wf_Transformer H m =
     (1 \<le> H \<and>
      list_all (\<lambda>r. length r = H) (token_embed m) \<and>
      list_all (\<lambda>r. length r = H) (position_embed m) \<and>
      list_all (wf_DecoderBlock H) (hidden_layers m) \<and>
      length (nn_weight (ln_f m)) = H \<and> length (nn_bias (ln_f m)) = H \<and>
      0 < nn_eps (ln_f m) \<and>
      wf_Linear (length (token_embed m)) H (language_head m))"

definition embed_pure :: "Transformer \<Rightarrow> nat \<Rightarrow> nat list list \<Rightarrow> tensor" where
  "embed_pure m off ids =
     map (\<lambda>r. map2 (map2 (+)) (map ((!) (token_embed m)) r)
                 (map ((!) (position_embed m)) [off..<off + length r])) ids"

definition head_pure :: "Transformer \<Rightarrow> tensor \<Rightarrow> tensor" where
  "head_pure m x = Linear_forward (language_head m) (nn_LayerNorm_forward (ln_f m) x)"

definition full_kvs :: "Transformer \<Rightarrow> nat list list \<Rightarrow> kv list" where
  "full_kvs m ids =
     layers_kvs (hidden_layers m) (embed_pure m 0 ids)
       (empty_kvs (length (hidden_layers m)) (length ids))"

definition full_logits :: "Transformer \<Rightarrow> nat list list \<Rightarrow> tensor" where
  "full_logits m ids =
     head_pure m (layers_out (hidden_layers m) (embed_pure m 0 ids)
       (empty_kvs (length (hidden_layers m)) (length ids)))"

section \<open>The specification's words\<close>

text \<open>The \<open>total_length\<close> of a cache entry: the number of positions of its keys.\<close>

definition total_length :: "kv \<Rightarrow> nat" where
  "total_length p = size1 (fst p)"

section \<open>Small models\<close>

text \<open>
  \<open>ex_model\<close> is a well-formed model with two decoder blocks, hidden size 2, a vocabulary of
  2 tokens and 3 positions. \<open>zero_layer_model\<close> has no decoder block
  (\<^verbatim>\<open>num_hidden_layers = 0\<close>): its logits are the final normalisation of the sum of the
  token and position embeddings.
\<close>

definition ex_norm :: LayerNorm where
  "ex_norm = \<lparr>gamma = [1, 1], beta = [0, 0], eps = 1 / 100000\<rparr>"

definition ex_attn :: SingleHeadSelfAttention where
  "ex_attn = \<lparr>hidden_size = 2,
     c_attn = \<lparr>weight = [[1, 0], [0, 1], [1, 0], [0, 1], [1, 0], [0, 1]], bias = [0, 0, 0, 0, 0, 0]\<rparr>,
     c_proj = \<lparr>weight = [[1, 0], [0, 1]], bias = [0, 0]\<rparr>\<rparr>"

definition ex_mlp :: MLP where
  "ex_mlp = \<lparr>c_fc = \<lparr>weight = [[1, 0], [0, 1], [1, 1]], bias = [0, 0, 0]\<rparr>,
     act = (\<lambda>x. max 0 x),
     mlp_c_proj = \<lparr>weight = [[1, 0, 0], [0, 1, 0]], bias = [0, 0]\<rparr>\<rparr>"

definition ex_block :: DecoderBlock where
  "ex_block = \<lparr>ln_1 = ex_norm, attn = ex_attn, ln_2 = ex_norm, mlp = ex_mlp\<rparr>"

definition ex_model :: Transformer where
  "ex_model = \<lparr>token_embed = [[1, 0], [0, 1]],
     position_embed = [[0, 0], [1, 2], [2, 1]],
     hidden_layers = [ex_block, ex_block],
     ln_f = \<lparr>nn_weight = [1, 1], nn_bias = [0, 0], nn_eps = 1 / 100000\<rparr>,
     language_head = \<lparr>weight = [[1, 0], [0, 1]], bias = [0, 0]\<rparr>\<rparr>"

definition zero_layer_model :: Transformer where
  "zero_layer_model = \<lparr>token_embed = [[0, 0], [0, 0]],
     position_embed = [[1, -1], [-1, 1], [-1, 1]],
     hidden_layers = [],
     ln_f = \<lparr>nn_weight = [1, 1], nn_bias = [0, 0], nn_eps = 1 / 100000\<rparr>,
     language_head = \<lparr>weight = [[1, 0], [0, 1]], bias = [0, 0]\<rparr>\<rparr>"

text \<open>A cache for \<open>ex_model\<close> whose two layers hold 1 and 2 past positions.\<close>

definition ragged_cache :: "kv list" where
  "ragged_cache = [([[[0, 0]]], [[[0, 0]]]), ([[[0, 0], [0, 0]]], [[[0, 0], [0, 0]]])]"

text \<open>A cache for \<open>ex_model\<close> whose second layer has hidden size 1.\<close>

definition narrow_cache :: "kv list" where
  "narrow_cache = [([[[0, 0]]], [[[0, 0]]]), ([[[0]]], [[[0]]])]"

text \<open>
  A model with no decoder block, hidden size 4, one token and one position: its logit is
  the last entry of the final normalisation of the row \<open>[0, 0, 0, 4]\<close>.
\<close>

definition norm_probe_model :: Transformer where
  "norm_probe_model = \<lparr>token_embed = [[0, 0, 0, 4]],
     position_embed = [[0, 0, 0, 0]],
     hidden_layers = [],
     ln_f = \<lparr>nn_weight = [1, 1, 1, 1], nn_bias = [0, 0, 0, 0], nn_eps = 1 / 100000\<rparr>,
     language_head = \<lparr>weight = [[0, 0, 0, 1]], bias = [0]\<rparr>\<rparr>"

section \<open>Lemmas: the attention, row by row\<close>

lemma causal_mask_length: "1 \<le> S \<Longrightarrow> length (causal_mask (P + S) S) = S"
  by (simp add: causal_mask_def last_rows_def tril_ones_def)

lemma causal_mask_nth:
  "j < S \<Longrightarrow> causal_mask (P + S) S ! j = map (\<lambda>c. if c \<le> P + j then 1 else 0) [0..<P + S]"
  by (simp add: causal_mask_def last_rows_def tril_ones_def)

lemma masked_row:
  assumes "length s = n" "i < n"
  shows "map2 (\<lambda>m a. if m = 0 then None else Some a)
           (map (\<lambda>c. if c \<le> i then (1::real) else 0) [0..<n]) s
         = map Some (take (Suc i) s) @ replicate (n - Suc i) None"
  using assms by (intro nth_equalityI) (auto simp: nth_append)

lemma sum_list_replicate_zero: "sum_list (replicate m (0::real)) = 0"
  by (induction m) simp_all

lemma softmax_append_None: "softmax (xs @ replicate m None) = softmax xs @ replicate m 0"
  by (simp add: softmax_def Let_def sum_list_replicate_zero)

lemma sum_list_map2_zeros:
  "sum_list (map2 (\<lambda>a r. a * f r) (replicate m (0::real)) v) = 0"
proof (induction m arbitrary: v)
  case 0
  then show ?case by simp
next
  case (Suc m)
  then show ?case by (cases v) simp_all
qed

lemma vecmat_append_zeros:
  assumes "w \<noteq> []"
  shows "vecmat (w @ replicate m 0) v = vecmat w (take (length w) v)"
proof -
  have nc: "ncols (take (length w) v) = ncols v"
    using assms by (cases v; cases w) (simp_all add: ncols_def)
  have "sum_list (map2 (\<lambda>a r. a * r ! c) (w @ replicate m 0) v)
        = sum_list (map2 (\<lambda>a r. a * r ! c) w (take (length w) v))" for c
    by (simp add: zip_append1 sum_list_map2_zeros)
  then show ?thesis by (simp add: vecmat_def nc)
qed

lemma scores_length [simp]: "length (scores h q k) = length q"
  by (simp add: scores_def)

lemma scores_nth: "j < length q \<Longrightarrow> scores h q k ! j = map (\<lambda>kj. dot (q ! j) kj / sqrt (real h)) k"
  by (simp add: scores_def)

lemma attn_weights_eq:
  assumes "1 \<le> S" "length q = S" "length k = P + S"
  shows "attn_weights h S q k =
           Inr (map (\<lambda>j. softmax (map (\<lambda>kj. Some (dot (q ! j) kj / sqrt (real h))) (take (Suc (P + j)) k))
                          @ replicate (S - Suc j) 0) [0..<S])"
proof -
  let ?f = "\<lambda>m a. if m = (0::real) then None else Some (a::real)"
  let ?M = "causal_mask (P + S) S"
  have len: "length ?M = length (scores h q k)"
    using assms by (simp add: causal_mask_length)
  have row: "softmax (map2 ?f (?M ! j) (scores h q k ! j)) =
      softmax (map (\<lambda>kj. Some (dot (q ! j) kj / sqrt (real h))) (take (Suc (P + j)) k))
        @ replicate (S - Suc j) 0" if "j < S" for j
  proof -
    have "map2 ?f (?M ! j) (scores h q k ! j) =
          map Some (take (Suc (P + j)) (scores h q k ! j)) @ replicate (P + S - Suc (P + j)) None"
      using that assms by (simp add: causal_mask_nth masked_row scores_nth)
    then show ?thesis
      using that assms
      by (simp add: softmax_append_None scores_nth take_map o_def)
  qed
  have "map softmax (map2 (map2 ?f) ?M (scores h q k)) =
        map (\<lambda>j. softmax (map (\<lambda>kj. Some (dot (q ! j) kj / sqrt (real h))) (take (Suc (P + j)) k))
                          @ replicate (S - Suc j) 0) [0..<S]"
  proof (rule nth_equalityI)
    show "length (map softmax (map2 (map2 ?f) ?M (scores h q k))) =
          length (map (\<lambda>j. softmax (map (\<lambda>kj. Some (dot (q ! j) kj / sqrt (real h))) (take (Suc (P + j)) k))
                          @ replicate (S - Suc j) 0) [0..<S])"
      using assms len by simp
  next
    fix i assume "i < length (map softmax (map2 (map2 ?f) ?M (scores h q k)))"
    then have i: "i < S" using assms len by simp
    then show "map softmax (map2 (map2 ?f) ?M (scores h q k)) ! i =
          map (\<lambda>j. softmax (map (\<lambda>kj. Some (dot (q ! j) kj / sqrt (real h))) (take (Suc (P + j)) k))
                          @ replicate (S - Suc j) 0) [0..<S] ! i"
      using assms len row[OF i] by simp
  qed
  then show ?thesis
    using len assms by (simp add: attn_weights_def masked_fill_def Let_def)
qed

lemma softmax_length [simp]: "length (softmax s) = length s"
  by (simp add: softmax_def Let_def)

lemma attend_eq:
  assumes "1 \<le> S" "length q = S" "length k = P + S" "length v = P + S"
  shows "attend h S q k v =
           Inr (map (\<lambda>j. arow h (q ! j) (take (Suc (P + j)) k) (take (Suc (P + j)) v)) [0..<S])"
proof -
  have ne: "softmax (map (\<lambda>kj. Some (dot (q ! j) kj / sqrt (real h))) (take (Suc (P + j)) k)) \<noteq> []" if "j < S" for j
  proof -
    have "length (softmax (map (\<lambda>kj. Some (dot (q ! j) kj / sqrt (real h))) (take (Suc (P + j)) k))) = Suc (P + j)"
      using that assms by simp
    then show ?thesis by (metis length_0_conv nat.distinct(1))
  qed
  let ?W = "map (\<lambda>j. softmax (map (\<lambda>kj. Some (dot (q ! j) kj / sqrt (real h))) (take (Suc (P + j)) k))
                          @ replicate (S - Suc j) 0) [0..<S]"
  have chk: "list_all (\<lambda>r. length r = length v) ?W"
    using assms by (auto simp: list_all_iff min_def)
  have "map (\<lambda>r. vecmat r v) ?W =
        map (\<lambda>j. arow h (q ! j) (take (Suc (P + j)) k) (take (Suc (P + j)) v)) [0..<S]"
    using assms ne by (simp add: vecmat_append_zeros arow_def min_def)
  then show ?thesis
    using chk by (simp add: attend_def attn_weights_eq[OF assms(1-3)] matmul_def)
qed

lemma Linear_row_length: "wf_Linear n i l \<Longrightarrow> length (Linear_row l x) = n"
  by (simp add: wf_Linear_def Linear_row_def)

lemma qrow_length: "wf_attn H a \<Longrightarrow> length (qrow a r) = H"
  using Linear_row_length[of "3 * H" H "c_attn a" r] by (simp add: wf_attn_def qrow_def)

lemma krow_length: "wf_attn H a \<Longrightarrow> length (krow a r) = H"
  using Linear_row_length[of "3 * H" H "c_attn a" r] by (simp add: wf_attn_def krow_def)

lemma vrow_length: "wf_attn H a \<Longrightarrow> length (vrow a r) = H"
  using Linear_row_length[of "3 * H" H "c_attn a" r] by (simp add: wf_attn_def vrow_def)

lemma shape3_nth:
  "shape3 B T H x \<longleftrightarrow>
     length x = B \<and> (\<forall>i<B. length (x ! i) = T \<and> (\<forall>r\<in>set (x ! i). length r = H))"
  unfolding shape3_def list_all_iff by (metis in_set_conv_nth nth_mem)

lemma shape3_D:
  "shape3 B T H x \<Longrightarrow> length x = B"
  "shape3 B T H x \<Longrightarrow> s \<in> set x \<Longrightarrow> length s = T"
  "shape3 B T H x \<Longrightarrow> s \<in> set x \<Longrightarrow> r \<in> set s \<Longrightarrow> length r = H"
  by (auto simp: shape3_def list_all_iff)

lemma shape3_I:
  "length x = B \<Longrightarrow> (\<And>s. s \<in> set x \<Longrightarrow> length s = T) \<Longrightarrow>
   (\<And>s r. s \<in> set x \<Longrightarrow> r \<in> set s \<Longrightarrow> length r = H) \<Longrightarrow> shape3 B T H x"
  by (auto simp: shape3_def list_all_iff)

lemma size1_shape3: "shape3 B T H x \<Longrightarrow> x \<noteq> [] \<Longrightarrow> size1 x = T"
  by (cases x) (auto simp: shape3_def size1_def)

lemma uniform_widthI:
  assumes "\<And>s r. s \<in> set t \<Longrightarrow> r \<in> set s \<Longrightarrow> length r = H"
  shows "uniform_width t"
proof -
  have *: "\<forall>r\<in>set (concat t). length r = H" using assms by auto
  show ?thesis
  proof (cases "concat t")
    case Nil
    show ?thesis unfolding uniform_width_def Nil by simp
  next
    case (Cons r rs)
    with * have "\<forall>s\<in>set (r # rs). length s = H" by metis
    then show ?thesis unfolding uniform_width_def Cons by (simp add: list_all_iff)
  qed
qed

lemma sequence_map_Inr:
  assumes "\<And>x. x \<in> set xs \<Longrightarrow> f x = Inr (g x)"
  shows "sequence (map f xs) = Inr (map g xs)"
  using assms by (induction xs) simp_all

lemma cat_dim1_shape:
  assumes "shape3 B P H a" "shape3 B S H b"
  shows "cat_dim1 a b = Inr (map2 (@) a b)" and "shape3 B (P + S) H (map2 (@) a b)"
proof -
  have "uniform_width (a @ b)"
    using assms by (intro uniform_widthI[where H = H]) (auto dest: shape3_D)
  then show "cat_dim1 a b = Inr (map2 (@) a b)"
    using assms by (simp add: cat_dim1_def shape3_D)
  show "shape3 B (P + S) H (map2 (@) a b)"
    using assms by (auto simp: shape3_nth)
qed

lemma attn_qkv:
  "map (map (take (hidden_size a))) (Linear_forward (c_attn a) x) = map (map (qrow a)) x"
  "map (map (\<lambda>r. take (hidden_size a) (drop (hidden_size a) r))) (Linear_forward (c_attn a) x)
     = map (map (krow a)) x"
  "map (map (\<lambda>r. take (hidden_size a) (drop (2 * hidden_size a) r))) (Linear_forward (c_attn a) x)
     = map (map (vrow a)) x"
  by (simp_all add: Linear_forward_def qrow_def krow_def vrow_def o_def)

lemma shape3_map_rows:
  assumes "shape3 B S H x" "\<And>r. length (f r) = H'"
  shows "shape3 B S H' (map (map f) x)"
  using assms by (auto simp: shape3_nth)

lemma attend_batch:
  assumes S: "1 \<le> S" and q: "shape3 B S H q" and k: "shape3 B (P + S) H k" and v: "shape3 B (P + S) H v"
  shows "sequence (map (\<lambda>b. attend h (size1 q) (q ! b) (k ! b) (v ! b)) [0..<length q])
         = Inr (map (\<lambda>b. attend_rows h P (q ! b) (k ! b) (v ! b)) [0..<length q])"
proof (rule sequence_map_Inr)
  fix i assume "i \<in> set [0..<length q]"
  then have i: "i < B" using q by (simp add: shape3_def)
  then have "q \<noteq> []" using q by (auto simp: shape3_def)
  then have s1: "size1 q = S" using q by (simp add: size1_shape3)
  have l: "length (q ! i) = S" "length (k ! i) = P + S" "length (v ! i) = P + S"
    using i q k v by (simp_all add: shape3_nth)
  show "attend h (size1 q) (q ! i) (k ! i) (v ! i) = Inr (attend_rows h P (q ! i) (k ! i) (v ! i))"
    unfolding s1 attend_rows_def l by (rule attend_eq[OF S l])
qed

lemma attention_Some:
  assumes wf: "wf_attn H a" and x: "shape3 B S H x" and S: "1 \<le> S"
    and pk: "shape3 B P H pk" and pv: "shape3 B P H pv"
  shows "SingleHeadSelfAttention_forward a x (Some (pk, pv)) =
           Inr (attn_pure a pk pv x,
                (map2 (@) pk (map (map (krow a)) x), map2 (@) pv (map (map (vrow a)) x)))"
proof -
  let ?q = "map (map (qrow a)) x"
  let ?k = "map (map (krow a)) x"
  let ?v = "map (map (vrow a)) x"
  let ?k' = "map2 (@) pk ?k"
  let ?v' = "map2 (@) pv ?v"
  have h: "hidden_size a = H" using wf by (simp add: wf_attn_def)
  have chk: "list_all (list_all (\<lambda>r. length r = hidden_size a)) x"
    using x h by (auto simp: shape3_def list_all_iff)
  have q: "shape3 B S H ?q"
    using x wf by (auto intro!: shape3_map_rows simp: qrow_length)
  have k: "shape3 B S H ?k" and v: "shape3 B S H ?v"
    using x wf by (auto intro!: shape3_map_rows simp: krow_length vrow_length)
  have catk: "cat_dim1 pk ?k = Inr ?k'" and catv: "cat_dim1 pv ?v = Inr ?v'"
    using cat_dim1_shape[OF pk k] cat_dim1_shape[OF pv v] by simp_all
  have k': "shape3 B (P + S) H ?k'" and v': "shape3 B (P + S) H ?v'"
    using cat_dim1_shape[OF pk k] cat_dim1_shape[OF pv v] by simp_all
  have lens: "length x = B" "length pk = B" "length pv = B"
    using x pk pv by (simp_all add: shape3_def)
  have s1: "size1 ?q = size1 x"
    by (cases x) (simp_all add: size1_def)
  have seq: "sequence (map (\<lambda>b. attend (hidden_size a) (size1 x) (?q ! b) (?k' ! b) (?v' ! b)) [0..<length x])
             = Inr (map (\<lambda>b. attend_rows H P (?q ! b) (?k' ! b) (?v' ! b)) [0..<length x])"
    using attend_batch[OF S q k' v', of H] unfolding s1 h by simp
  have out: "Linear_forward (c_proj a) (map (\<lambda>b. attend_rows H P (?q ! b) (?k' ! b) (?v' ! b)) [0..<length x])
             = attn_pure a pk pv x"
  proof -
    have "map (Linear_row (c_proj a)) (attend_rows H P (?q ! b) (?k' ! b) (?v' ! b))
          = attn_sample a (pk ! b) (pv ! b) (x ! b)" if "b < B" for b
    proof -
      have "length (pk ! b) = P" using that pk by (simp add: shape3_nth)
      then show ?thesis using that lens by (simp add: attn_sample_def h)
    qed
    then show ?thesis
      using lens by (simp add: Linear_forward_def attn_pure_def)
  qed
  show ?thesis
    unfolding SingleHeadSelfAttention_forward_def Let_def attn_qkv
    using chk by (simp add: catk catv seq out dropout_def)
qed

lemma map2_append_empty: "length k = B \<Longrightarrow> map2 (@) (empty_cache B) k = k"
  by (rule nth_equalityI) (simp_all add: empty_cache_def)

lemma shape3_empty: "shape3 B 0 H (empty_cache B)"
  by (simp add: shape3_nth empty_cache_def)

lemma attention_None:
  assumes wf: "wf_attn H a" and x: "shape3 B S H x" and S: "1 \<le> S"
  shows "SingleHeadSelfAttention_forward a x None =
           SingleHeadSelfAttention_forward a x (Some (empty_cache B, empty_cache B))"
proof -
  let ?k = "map (map (krow a)) x"
  let ?v = "map (map (vrow a)) x"
  have k: "shape3 B S H ?k" and v: "shape3 B S H ?v"
    using x wf by (auto intro!: shape3_map_rows simp: krow_length vrow_length)
  have "cat_dim1 (empty_cache B) ?k = Inr ?k" "cat_dim1 (empty_cache B) ?v = Inr ?v"
    using cat_dim1_shape(1)[OF shape3_empty k] cat_dim1_shape(1)[OF shape3_empty v] x
    by (simp_all add: map2_append_empty shape3_def)
  then show ?thesis
    unfolding SingleHeadSelfAttention_forward_def Let_def attn_qkv by simp
qed

lemma attend_rows_append:
  "attend_rows h P (qo @ qn) k v = attend_rows h P qo k v @ attend_rows h (P + length qo) qn k v"
proof (rule nth_equalityI)
  show "length (attend_rows h P (qo @ qn) k v)
        = length (attend_rows h P qo k v @ attend_rows h (P + length qo) qn k v)"
    by (simp add: attend_rows_def)
next
  fix i assume "i < length (attend_rows h P (qo @ qn) k v)"
  then have i: "i < length qo + length qn" by (simp add: attend_rows_def)
  show "attend_rows h P (qo @ qn) k v ! i
        = (attend_rows h P qo k v @ attend_rows h (P + length qo) qn k v) ! i"
  proof (cases "i < length qo")
    case True
    then show ?thesis using i by (simp add: attend_rows_def nth_append)
  next
    case False
    then have "P + length qo + (i - length qo) = P + i" by simp
    then show ?thesis using i False by (simp add: attend_rows_def nth_append)
  qed
qed

lemma attend_rows_prefix:
  assumes "P + length q \<le> length ko" "P + length q \<le> length vo"
  shows "attend_rows h P q (ko @ kn) (vo @ vn) = attend_rows h P q ko vo"
  using assms by (simp add: attend_rows_def)

lemma attn_sample_append:
  assumes "length pk = length pv"
  shows "attn_sample a pk pv (xo @ xn) =
         attn_sample a pk pv xo @ attn_sample a (pk @ map (krow a) xo) (pv @ map (vrow a) xo) xn"
proof -
  let ?ko = "pk @ map (krow a) xo" and ?vo = "pv @ map (vrow a) xo"
  have "attend_rows (hidden_size a) (length pk) (map (qrow a) xo)
          (?ko @ map (krow a) xn) (?vo @ map (vrow a) xn)
        = attend_rows (hidden_size a) (length pk) (map (qrow a) xo) ?ko ?vo"
    using assms by (intro attend_rows_prefix) simp_all
  then show ?thesis
    by (simp add: attn_sample_def attend_rows_append)
qed

section \<open>The causal mask\<close>

lemma sum_list_exp_pos: "xs \<noteq> [] \<Longrightarrow> 0 < sum_list (map exp (xs :: real list))"
proof (induction xs)
  case Nil
  then show ?case by simp
next
  case (Cons x xs)
  have "0 \<le> sum_list (map exp xs)" by (rule sum_list_nonneg) auto
  then have "0 < exp x + sum_list (map exp xs)"
    using exp_gt_zero[of x] by linarith
  then show ?case by simp
qed

lemma softmax_Some_pos:
  assumes "c < length xs"
  shows "0 < softmax (map Some xs) ! c"
proof -
  have "xs \<noteq> []" using assms by auto
  then have "0 < sum_list (map exp xs)" by (rule sum_list_exp_pos)
  then show ?thesis using assms by (simp add: softmax_def Let_def o_def)
qed

text \<open>
  Claim C4. With \<open>P\<close> cached positions and \<open>S \<ge> 1\<close> new tokens (and a hidden size
  \<open>h \<ge> 1\<close>, so that the scores are numbers) the mask is the bottom
  \<open>S\<close> rows of the lower-triangular \<open>(P+S) \<times> (P+S)\<close> matrix, and the attention weight
  of new query \<open>j\<close> on key \<open>c\<close> is nonzero exactly for \<open>c \<le> P + j\<close>: the \<open>P\<close> prior
  positions and the new positions \<open>0..j\<close>, never a later one.
\<close>

theorem causal_mask_bottom_rows:
  assumes "1 \<le> S" "length q = S" "length k = P + S" "1 \<le> h"
  shows "causal_mask (P + S) S = drop P (tril_ones (P + S)) \<and>
         (\<exists>w. attn_weights h S q k = Inr w \<and> length w = S \<and>
              (\<forall>j<S. length (w ! j) = P + S \<and> (\<forall>c<P + S. (w ! j ! c \<noteq> 0) = (c \<le> P + j))))"
proof -
  let ?s = "\<lambda>j. map (\<lambda>kj. dot (q ! j) kj / sqrt (real h)) (take (Suc (P + j)) k)"
  let ?w = "map (\<lambda>j. softmax (map Some (?s j)) @ replicate (S - Suc j) 0) [0..<S]"
  have mask: "causal_mask (P + S) S = drop P (tril_ones (P + S))"
    using assms(1) by (simp add: causal_mask_def last_rows_def tril_ones_def)
  have w: "attn_weights h S q k = Inr ?w"
    using attn_weights_eq[OF assms(1-3)] by (simp add: o_def)
  have rows: "length (?w ! j) = P + S \<and> (\<forall>c<P + S. (?w ! j ! c \<noteq> 0) = (c \<le> P + j))" if j: "j < S" for j
  proof -
    have len: "length (?s j) = Suc (P + j)" using j assms by simp
    have "(?w ! j ! c \<noteq> 0) = (c \<le> P + j)" if "c < P + S" for c
    proof (cases "c \<le> P + j")
      case True
      then have "0 < softmax (map Some (?s j)) ! c"
        using len by (intro softmax_Some_pos) simp
      then show ?thesis using True j len by (simp add: nth_append)
    next
      case False
      then show ?thesis using j len that by (simp add: nth_append)
    qed
    then show ?thesis using j len by simp
  qed
  show ?thesis using mask w rows by simp
qed

theorem causal_mask_bottom_rows_witness:
  "(1::nat) \<le> 2 \<and> length [[1], [2::real]] = 2 \<and> length [[1], [0], [1::real]] = 1 + 2 \<and>
   (1::nat) \<le> 1 \<and>
   causal_mask (1 + 2) 2 = drop 1 (tril_ones (1 + 2)) \<and>
   (\<exists>w. attn_weights 1 2 [[1], [2]] [[1], [0], [1]] = Inr w \<and> length w = 2 \<and>
        (\<forall>j<2. length (w ! j) = 1 + 2 \<and> (\<forall>c<1 + 2. (w ! j ! c \<noteq> 0) = (c \<le> 1 + j))))"
  using causal_mask_bottom_rows[of 2 "[[1], [2]]" "[[1], [0], [1]]" 1 1] by simp

section \<open>Lemmas: a decoder block, row by row\<close>

lemma MLP_forward_rows: "MLP_forward p x = map (map (mlp_row p)) x"
  by (simp add: MLP_forward_def Linear_forward_def dropout_def mlp_row_def o_def)

lemma norm_row_length:
  "wf_LayerNorm H n \<Longrightarrow> length x = H \<Longrightarrow> length (norm_row n x) = H"
  by (simp add: wf_LayerNorm_def norm_row_def)

lemma Linear_row_length_min: "length (Linear_row l x) = min (length (weight l)) (length (bias l))"
  by (simp add: Linear_row_def)

lemma mlp_row_length: "wf_MLP H p \<Longrightarrow> length (mlp_row p r) = H"
  by (simp add: wf_MLP_def mlp_row_def Linear_row_length_min wf_Linear_def)

lemma attn_sample_length [simp]: "length (attn_sample a pk pv xn) = length xn"
  by (simp add: attn_sample_def attend_rows_def)

lemma attn_sample_row_length:
  "wf_attn H a \<Longrightarrow> r \<in> set (attn_sample a pk pv xn) \<Longrightarrow> length r = H"
  by (auto simp: attn_sample_def wf_attn_def Linear_row_length_min wf_Linear_def)

lemma block_sample_length [simp]: "length (block_sample b pk pv xn) = length xn"
  by (simp add: block_sample_def Let_def)

lemma block_post_length:
  assumes "wf_DecoderBlock H b" "length x1 = H" "length a = H"
  shows "length (block_post b x1 a) = H"
proof -
  have "length (norm_row (ln_2 b) (map2 (+) x1 a)) = H"
    using assms by (intro norm_row_length) (simp_all add: wf_DecoderBlock_def)
  moreover have "length (mlp_row (mlp b) (norm_row (ln_2 b) (map2 (+) x1 a))) = H"
    using assms by (intro mlp_row_length) (simp add: wf_DecoderBlock_def)
  ultimately show ?thesis by (simp add: block_post_def Let_def)
qed

lemma block_sample_row_length:
  assumes wf: "wf_DecoderBlock H b" and x: "\<And>r. r \<in> set xn \<Longrightarrow> length r = H"
    and r: "r \<in> set (block_sample b pk pv xn)"
  shows "length r = H"
proof -
  let ?x1 = "map (norm_row (ln_1 b)) xn"
  from r obtain j where j: "j < length xn"
    and r': "r = block_post b (?x1 ! j) (attn_sample (attn b) pk pv ?x1 ! j)"
    by (auto simp: block_sample_def Let_def in_set_conv_nth)
  have "length (?x1 ! j) = H"
    using wf x j by (simp add: wf_DecoderBlock_def norm_row_length)
  moreover have "length (attn_sample (attn b) pk pv ?x1 ! j) = H"
    using wf j by (intro attn_sample_row_length[of H "attn b" _ pk pv ?x1]) (simp_all add: wf_DecoderBlock_def)
  ultimately show ?thesis using wf r' by (simp add: block_post_length)
qed

lemma block_pure_shape:
  assumes "wf_DecoderBlock H b" "shape3 B S H x"
  shows "shape3 B S H (block_pure b pk pv x)"
  using assms
  by (auto simp: shape3_nth block_pure_def intro: block_sample_row_length)

lemma norm_rows_shape:
  assumes "wf_LayerNorm H n" "shape3 B S H x"
  shows "shape3 B S H (norm_rows n x)"
  using assms by (auto simp: shape3_nth norm_rows_def norm_row_length)

lemma broadcast2_same: "length a = length b \<Longrightarrow> broadcast2 f a b = Inr (map2 f a b)"
  by (simp add: broadcast2_def)

lemma LayerNorm_row_Inr:
  assumes "wf_LayerNorm H n" "length x = H"
  shows "LayerNorm_row n x = Inr (norm_row n x)"
proof -
  let ?y = "map (\<lambda>v. (v - mean x) / (std x + eps n)) x"
  have g: "length (gamma n) = length x" and b: "length (beta n) = length x"
    using assms by (simp_all add: wf_LayerNorm_def)
  have 1: "broadcast2 (*) ?y (gamma n) = Inr (map2 (*) ?y (gamma n))"
    using g by (simp add: broadcast2_same)
  have 2: "broadcast2 (+) (map2 (*) ?y (gamma n)) (beta n) = Inr (map2 (+) (map2 (*) ?y (gamma n)) (beta n))"
    using g b by (simp add: broadcast2_same)
  have "map2 (+) (map2 (*) ?y (gamma n)) (beta n) = norm_row n x"
    using g b by (intro nth_equalityI) (simp_all add: norm_row_def)
  then show ?thesis by (simp add: LayerNorm_row_def 1 2)
qed

lemma LayerNorm_forward_Inr:
  assumes "wf_LayerNorm H n" "shape3 B S H x"
  shows "LayerNorm_forward n x = Inr (norm_rows n x)"
proof -
  have "sequence (map (LayerNorm_row n) s) = Inr (map (norm_row n) s)" if "s \<in> set x" for s
  proof (rule sequence_map_Inr)
    fix r assume "r \<in> set s"
    then have "length r = H" using that shape3_D(3)[OF assms(2)] by simp
    then show "LayerNorm_row n r = Inr (norm_row n r)" by (rule LayerNorm_row_Inr[OF assms(1)])
  qed
  then show ?thesis
    unfolding LayerNorm_forward_def norm_rows_def by (rule sequence_map_Inr)
qed

lemma tensor_add_shape:
  assumes "shape3 B S H x" "shape3 B S H y"
  shows "shape3 B S H (tensor_add x y)"
  using assms by (auto simp: shape3_nth tensor_add_def set_zip)

lemma attn_pure_shape:
  assumes "wf_attn H a" "length x = B" "\<And>i. i < B \<Longrightarrow> length (x ! i) = S"
  shows "shape3 B S H (attn_pure a pk pv x)"
  using assms by (auto simp: shape3_nth attn_pure_def intro: attn_sample_row_length)

lemma residual_rows:
  assumes "length a = length x1"
  shows "map2 (map2 (+)) (map f (map2 (map2 (+)) x1 a)) (map g (map f (map2 (map2 (+)) x1 a)))
         = map2 (\<lambda>u w. let z = f (map2 (+) u w) in map2 (+) z (g z)) x1 a"
  using assms by (intro nth_equalityI) (simp_all add: Let_def)

lemma block_tail:
  assumes "length att = length x1" "\<And>i. i < length x1 \<Longrightarrow> length (att ! i) = length (x1 ! i)"
  shows "tensor_add (norm_rows (ln_2 b) (tensor_add x1 att))
           (MLP_forward (mlp b) (norm_rows (ln_2 b) (tensor_add x1 att)))
         = map (\<lambda>i. map2 (block_post b) (x1 ! i) (att ! i)) [0..<length x1]"
proof (rule nth_equalityI)
  show "length (tensor_add (norm_rows (ln_2 b) (tensor_add x1 att))
           (MLP_forward (mlp b) (norm_rows (ln_2 b) (tensor_add x1 att))))
        = length (map (\<lambda>i. map2 (block_post b) (x1 ! i) (att ! i)) [0..<length x1])"
    using assms(1) by (simp add: tensor_add_def norm_rows_def MLP_forward_rows)
next
  fix i assume "i < length (tensor_add (norm_rows (ln_2 b) (tensor_add x1 att))
           (MLP_forward (mlp b) (norm_rows (ln_2 b) (tensor_add x1 att))))"
  then have i: "i < length x1"
    using assms(1) by (simp add: tensor_add_def norm_rows_def MLP_forward_rows)
  have "map2 (map2 (+)) (map (norm_row (ln_2 b)) (map2 (map2 (+)) (x1 ! i) (att ! i)))
          (map (mlp_row (mlp b)) (map (norm_row (ln_2 b)) (map2 (map2 (+)) (x1 ! i) (att ! i))))
        = map2 (block_post b) (x1 ! i) (att ! i)"
    using residual_rows[of "att ! i" "x1 ! i" "norm_row (ln_2 b)" "mlp_row (mlp b)"] assms(2)[OF i]
    by (simp add: block_post_def[abs_def])
  then show "tensor_add (norm_rows (ln_2 b) (tensor_add x1 att))
           (MLP_forward (mlp b) (norm_rows (ln_2 b) (tensor_add x1 att))) ! i
        = map (\<lambda>i. map2 (block_post b) (x1 ! i) (att ! i)) [0..<length x1] ! i"
    using i assms(1) by (simp add: tensor_add_def norm_rows_def MLP_forward_rows)
qed

lemma block_Some:
  assumes wf: "wf_DecoderBlock H b" and x: "shape3 B S H x" and S: "1 \<le> S"
    and pk: "shape3 B P H pk" and pv: "shape3 B P H pv"
  shows "DecoderBlock_forward b x (Some (pk, pv)) True =
           Inr (block_pure b pk pv x,
                (map2 (@) pk (map (block_keys b) x), map2 (@) pv (map (block_values b) x)))"
proof -
  let ?x1 = "norm_rows (ln_1 b) x"
  let ?a = "attn_pure (attn b) pk pv ?x1"
  have x1: "shape3 B S H ?x1"
    using wf x by (intro norm_rows_shape) (simp_all add: wf_DecoderBlock_def)
  have n1: "LayerNorm_forward (ln_1 b) x = Inr ?x1"
    using wf x by (intro LayerNorm_forward_Inr) (simp_all add: wf_DecoderBlock_def)
  have wa: "wf_attn H (attn b)" using wf by (simp add: wf_DecoderBlock_def)
  have att: "SingleHeadSelfAttention_forward (attn b) ?x1 (Some (pk, pv)) =
      Inr (?a, (map2 (@) pk (map (map (krow (attn b))) ?x1), map2 (@) pv (map (map (vrow (attn b))) ?x1)))"
    by (rule attention_Some[OF wa x1 S pk pv])
  have a: "shape3 B S H ?a"
    using x1 by (intro attn_pure_shape[OF wa]) (simp_all add: shape3_nth)
  have n2: "LayerNorm_forward (ln_2 b) (tensor_add ?x1 ?a) = Inr (norm_rows (ln_2 b) (tensor_add ?x1 ?a))"
    using wf tensor_add_shape[OF x1 a] by (intro LayerNorm_forward_Inr) (simp_all add: wf_DecoderBlock_def)
  have kv: "map (map (krow (attn b))) ?x1 = map (block_keys b) x"
    "map (map (vrow (attn b))) ?x1 = map (block_values b) x"
    by (simp_all add: norm_rows_def block_keys_def block_values_def)
  have tail: "tensor_add (norm_rows (ln_2 b) (tensor_add ?x1 ?a))
           (MLP_forward (mlp b) (norm_rows (ln_2 b) (tensor_add ?x1 ?a)))
        = map (\<lambda>i. map2 (block_post b) (?x1 ! i) (?a ! i)) [0..<length ?x1]"
    by (rule block_tail) (simp_all add: attn_pure_def)
  have "map (\<lambda>i. map2 (block_post b) (?x1 ! i) (?a ! i)) [0..<length ?x1]
        = block_pure b pk pv x"
    by (simp add: block_pure_def block_sample_def Let_def attn_pure_def norm_rows_def)
  with tail show ?thesis
    unfolding DecoderBlock_forward_def by (simp add: n1 att n2 kv)
qed

lemma block_None:
  assumes wf: "wf_DecoderBlock H b" and x: "shape3 B S H x" and S: "1 \<le> S"
  shows "DecoderBlock_forward b x past_kv False =
           DecoderBlock_forward b x (Some (empty_cache B, empty_cache B)) True"
    and "DecoderBlock_forward b x None True =
           DecoderBlock_forward b x (Some (empty_cache B, empty_cache B)) True"
proof -
  let ?x1 = "norm_rows (ln_1 b) x"
  have x1: "shape3 B S H ?x1"
    using wf x by (intro norm_rows_shape) (simp_all add: wf_DecoderBlock_def)
  have n1: "LayerNorm_forward (ln_1 b) x = Inr ?x1"
    using wf x by (intro LayerNorm_forward_Inr) (simp_all add: wf_DecoderBlock_def)
  have wa: "wf_attn H (attn b)" using wf by (simp add: wf_DecoderBlock_def)
  note eq = attention_None[OF wa x1 S]
  show "DecoderBlock_forward b x past_kv False =
           DecoderBlock_forward b x (Some (empty_cache B, empty_cache B)) True"
    unfolding DecoderBlock_forward_def by (simp add: n1 eq)
  show "DecoderBlock_forward b x None True =
           DecoderBlock_forward b x (Some (empty_cache B, empty_cache B)) True"
    unfolding DecoderBlock_forward_def by (simp add: n1 eq)
qed

lemma map2_append_same:
  "length a = length c \<Longrightarrow> map2 f (a @ b) (c @ d) = map2 f a c @ map2 f b d"
  by simp

lemma block_sample_append:
  assumes "length pk = length pv"
  shows "block_sample b pk pv (xo @ xn) =
         block_sample b pk pv xo @ block_sample b (pk @ block_keys b xo) (pv @ block_values b xo) xn"
  using assms
  by (simp add: block_sample_def Let_def attn_sample_append block_keys_def block_values_def)

section \<open>Lemmas: the stack of decoder blocks\<close>

lemma block_keys_shape:
  assumes "wf_DecoderBlock H b" "shape3 B S H x"
  shows "shape3 B S H (map (block_keys b) x)" "shape3 B S H (map (block_values b) x)"
  using assms
  by (auto simp: shape3_nth block_keys_def block_values_def wf_DecoderBlock_def krow_length vrow_length)

lemma block_kv_wf:
  assumes wf: "wf_DecoderBlock H b" and x: "shape3 B S H x" and p: "shape3 B P H (fst p)" "shape3 B P H (snd p)"
  shows "shape3 B (P + S) H (fst (block_kv b p x))" "shape3 B (P + S) H (snd (block_kv b p x))"
  using cat_dim1_shape(2)[OF p(1) block_keys_shape(1)[OF wf x]]
    cat_dim1_shape(2)[OF p(2) block_keys_shape(2)[OF wf x]]
  by (simp_all add: block_kv_def)

lemma wf_kvD:
  assumes "wf_kv B H p"
  shows "shape3 B (size1 (fst p)) H (fst p)" "shape3 B (size1 (fst p)) H (snd p)"
  using assms by (simp_all add: wf_kv_def)

lemma layers_loop_Some:
  assumes "list_all (wf_DecoderBlock H) bs" "shape3 B S H x" "1 \<le> S"
    "i + length bs \<le> length ps" "list_all (wf_kv B H) (drop i ps)"
  shows "layers_loop bs i x (Some ps) True acc =
           Inr (layers_out bs x (drop i ps), acc @ layers_kvs bs x (drop i ps))"
  using assms
proof (induction bs arbitrary: i x acc)
  case Nil
  then show ?case by simp
next
  case (Cons b bs)
  have i: "i < length ps" using Cons.prems(4) by simp
  then have d: "drop i ps = ps ! i # drop (Suc i) ps" by (simp add: Cons_nth_drop_Suc)
  have wfb: "wf_DecoderBlock H b" and wfbs: "list_all (wf_DecoderBlock H) bs"
    using Cons.prems(1) by simp_all
  have p: "wf_kv B H (ps ! i)" and rest: "list_all (wf_kv B H) (drop (Suc i) ps)"
    using Cons.prems(5) d by simp_all
  obtain pk pv where pi: "ps ! i = (pk, pv)" by (cases "ps ! i")
  have shp: "shape3 B (size1 pk) H pk" "shape3 B (size1 pk) H pv"
    using wf_kvD[OF p] pi by simp_all
  have blk: "DecoderBlock_forward b x (Some (ps ! i)) True =
      Inr (block_pure b pk pv x, block_kv b (ps ! i) x)"
    unfolding pi using block_Some[OF wfb Cons.prems(2,3) shp] by (simp add: block_kv_def)
  have y: "shape3 B S H (block_pure b pk pv x)"
    by (rule block_pure_shape[OF wfb Cons.prems(2)])
  have IH: "layers_loop bs (Suc i) (block_pure b pk pv x) (Some ps) True (acc @ [block_kv b (ps ! i) x]) =
        Inr (layers_out bs (block_pure b pk pv x) (drop (Suc i) ps),
             (acc @ [block_kv b (ps ! i) x]) @ layers_kvs bs (block_pure b pk pv x) (drop (Suc i) ps))"
    using Cons.prems(4) by (intro Cons.IH[OF wfbs y Cons.prems(3) _ rest]) simp
  show ?case
    using i blk IH by (simp add: d pi)
qed

lemma block_empty:
  assumes wf: "wf_DecoderBlock H b" and x: "shape3 B S H x" and S: "1 \<le> S"
  shows "DecoderBlock_forward b x (Some (empty_cache B, empty_cache B)) True =
           Inr (block_pure b (empty_cache B) (empty_cache B) x,
                block_kv b (empty_cache B, empty_cache B) x)"
  using block_Some[OF wf x S shape3_empty shape3_empty] by (simp add: block_kv_def)

lemma layers_loop_None:
  assumes "list_all (wf_DecoderBlock H) bs" "shape3 B S H x" "1 \<le> S"
  shows "layers_loop bs i x None True acc =
           Inr (layers_out bs x (empty_kvs (length bs) B),
                acc @ layers_kvs bs x (empty_kvs (length bs) B)) \<and>
         layers_loop bs i x None False acc =
           Inr (layers_out bs x (empty_kvs (length bs) B), acc)"
  using assms
proof (induction bs arbitrary: i x acc)
  case Nil
  then show ?case by simp
next
  case (Cons b bs)
  have wfb: "wf_DecoderBlock H b" and wfbs: "list_all (wf_DecoderBlock H) bs"
    using Cons.prems(1) by simp_all
  let ?y = "block_pure b (empty_cache B) (empty_cache B) x"
  have y: "shape3 B S H ?y"
    by (rule block_pure_shape[OF wfb Cons.prems(2)])
  note blk = block_None[OF wfb Cons.prems(2,3)] block_empty[OF wfb Cons.prems(2,3)]
  show ?case
    using Cons.IH[OF wfbs y Cons.prems(3)]
    by (simp add: blk empty_kvs_def)
qed

lemma kv_okD:
  assumes "kv_ok B p"
  shows "length (fst p) = B" "length (snd p) = B" "i < B \<Longrightarrow> length (fst p ! i) = length (snd p ! i)"
  using assms by (auto simp: kv_ok_def list_all2_conv_all_nth)

lemma kv_okI:
  assumes "length (fst p) = B" "length (snd p) = B" "\<And>i. i < B \<Longrightarrow> length (fst p ! i) = length (snd p ! i)"
  shows "kv_ok B p"
  using assms by (auto simp: kv_ok_def list_all2_conv_all_nth)

lemma wf_kv_ok: "wf_kv B H p \<Longrightarrow> kv_ok B p"
  by (intro kv_okI) (auto simp: wf_kv_def shape3_nth)

lemma block_pure_length [simp]: "length (block_pure b pk pv x) = length x"
  by (simp add: block_pure_def)

lemma block_kv_ok:
  assumes "kv_ok B p" "length x = B"
  shows "kv_ok B (block_kv b p x)"
  using assms kv_okD[OF assms(1)]
  by (intro kv_okI) (simp_all add: block_kv_def block_keys_def block_values_def)

lemma block_pure_append:
  assumes "length xo = B" "length xn = B" "kv_ok B p"
  shows "block_pure b (fst p) (snd p) (map2 (@) xo xn) =
         map2 (@) (block_pure b (fst p) (snd p) xo)
           (block_pure b (fst (block_kv b p xo)) (snd (block_kv b p xo)) xn)"
proof (rule nth_equalityI)
  show "length (block_pure b (fst p) (snd p) (map2 (@) xo xn)) =
        length (map2 (@) (block_pure b (fst p) (snd p) xo)
           (block_pure b (fst (block_kv b p xo)) (snd (block_kv b p xo)) xn))"
    using assms by simp
next
  fix i assume "i < length (block_pure b (fst p) (snd p) (map2 (@) xo xn))"
  then have i: "i < B" using assms by simp
  note l = kv_okD[OF assms(3)]
  show "block_pure b (fst p) (snd p) (map2 (@) xo xn) ! i =
        map2 (@) (block_pure b (fst p) (snd p) xo)
           (block_pure b (fst (block_kv b p xo)) (snd (block_kv b p xo)) xn) ! i"
    using i assms(1,2) l(1,2) l(3)[OF i]
    by (simp add: block_pure_def block_kv_def block_sample_append)
qed

lemma block_kv_append:
  "block_kv b p (map2 (@) xo xn) = block_kv b (block_kv b p xo) xn"
proof -
  have "map2 (@) k (map f (map2 (@) xo xn)) = map2 (@) (map2 (@) k (map f xo)) (map f xn)"
    if f: "\<And>u w. f (u @ w) = f u @ f w" for k :: tensor and f
  proof (rule nth_equalityI)
    show "length (map2 (@) k (map f (map2 (@) xo xn))) =
          length (map2 (@) (map2 (@) k (map f xo)) (map f xn))"
      by simp
  next
    fix i assume "i < length (map2 (@) k (map f (map2 (@) xo xn)))"
    then have "i < length k" "i < length xo" "i < length xn" by simp_all
    then show "map2 (@) k (map f (map2 (@) xo xn)) ! i =
          map2 (@) (map2 (@) k (map f xo)) (map f xn) ! i"
      by (simp add: f)
  qed
  then show ?thesis
    by (simp add: block_kv_def block_keys_def block_values_def)
qed

lemma layers_append:
  assumes "length xo = B" "length xn = B" "list_all (kv_ok B) ps"
  shows "layers_out bs (map2 (@) xo xn) ps =
           map2 (@) (layers_out bs xo ps) (layers_out bs xn (layers_kvs bs xo ps)) \<and>
         layers_kvs bs (map2 (@) xo xn) ps = layers_kvs bs xn (layers_kvs bs xo ps)"
  using assms
proof (induction bs arbitrary: xo xn ps)
  case Nil
  then show ?case by simp
next
  case (Cons b bs)
  show ?case
  proof (cases ps)
    case Nil
    then show ?thesis by simp
  next
    case (Cons p ps')
    have p: "kv_ok B p" and ps': "list_all (kv_ok B) ps'"
      using Cons.prems(3) Cons by simp_all
    let ?yo = "block_pure b (fst p) (snd p) xo"
    let ?p' = "block_kv b p xo"
    let ?yn = "block_pure b (fst ?p') (snd ?p') xn"
    have "layers_out bs (map2 (@) ?yo ?yn) ps' =
           map2 (@) (layers_out bs ?yo ps') (layers_out bs ?yn (layers_kvs bs ?yo ps')) \<and>
         layers_kvs bs (map2 (@) ?yo ?yn) ps' = layers_kvs bs ?yn (layers_kvs bs ?yo ps')"
      using Cons.prems(1,2) ps' by (intro Cons.IH) simp_all
    then show ?thesis
      using block_pure_append[OF Cons.prems(1,2) p, of b] block_kv_append[of b p xo xn]
      by (simp add: Cons)
  qed
qed

section \<open>Lemmas: the whole model\<close>

lemma ids_ok_nth:
  "ids_ok V B T ids \<longleftrightarrow>
     length ids = B \<and> (\<forall>i<B. length (ids ! i) = T \<and> (\<forall>t\<in>set (ids ! i). t < V))"
  unfolding ids_ok_def list_all_iff by (metis in_set_conv_nth nth_mem)

lemma size1_ids_ok: "ids_ok V B T ids \<Longrightarrow> 1 \<le> B \<Longrightarrow> size1 ids = T"
  by (cases ids) (auto simp: ids_ok_def size1_def)

lemma embed_model:
  assumes ids: "ids_ok (length (token_embed m)) B T ids" and B: "1 \<le> B"
    and L: "past_len past + T \<le> length (position_embed m)"
  shows "Embedding_forward (token_embed m) ids = Inr (map (map ((!) (token_embed m))) ids)"
    and "Embedding_forward (position_embed m) (position_ids ids past) =
           Inr [map ((!) (position_embed m)) [past_len past..<past_len past + T]]"
    and "dropout (add_broadcast (map (map ((!) (token_embed m))) ids)
           [map ((!) (position_embed m)) [past_len past..<past_len past + T]])
         = embed_pure m (past_len past) ids"
proof -
  show "Embedding_forward (token_embed m) ids = Inr (map (map ((!) (token_embed m))) ids)"
    using ids by (auto simp: Embedding_forward_def ids_ok_def list_all_iff)
  show "Embedding_forward (position_embed m) (position_ids ids past) =
           Inr [map ((!) (position_embed m)) [past_len past..<past_len past + T]]"
    using L size1_ids_ok[OF ids B]
    by (auto simp: Embedding_forward_def position_ids_def list_all_iff)
  have "map2 (map2 (+)) (map ((!) (token_embed m)) r)
          (map ((!) (position_embed m)) [past_len past..<past_len past + T])
        = map2 (map2 (+)) (map ((!) (token_embed m)) r)
          (map ((!) (position_embed m)) [past_len past..<past_len past + length r])"
    if "r \<in> set ids" for r
    using that ids by (auto simp: ids_ok_def list_all_iff)
  then show "dropout (add_broadcast (map (map ((!) (token_embed m))) ids)
           [map ((!) (position_embed m)) [past_len past..<past_len past + T]])
         = embed_pure m (past_len past) ids"
    by (simp add: dropout_def add_broadcast_def embed_pure_def)
qed

lemma embed_pure_shape:
  assumes wf: "wf_Transformer H m" and ids: "ids_ok (length (token_embed m)) B T ids"
    and L: "off + T \<le> length (position_embed m)"
  shows "shape3 B T H (embed_pure m off ids)"
proof -
  have te: "length (token_embed m ! t) = H" if "t < length (token_embed m)" for t
    using wf that by (simp add: wf_Transformer_def list_all_length)
  have pe: "length (position_embed m ! t) = H" if "t < length (position_embed m)" for t
    using wf that by (simp add: wf_Transformer_def list_all_length)
  have "length r' = H"
    if i: "i < B" and r': "r' \<in> set (embed_pure m off ids ! i)" for i r'
  proof -
    let ?r = "ids ! i"
    have len: "length ?r = T" and v: "\<forall>t\<in>set ?r. t < length (token_embed m)"
      using ids i by (simp_all add: ids_ok_nth)
    from r' i ids obtain j where j: "j < T"
      and e: "r' = map2 (+) (token_embed m ! (?r ! j)) (position_embed m ! (off + j))"
      by (auto simp: embed_pure_def ids_ok_nth in_set_conv_nth)
    have "?r ! j < length (token_embed m)" using v j len by simp
    moreover have "off + j < length (position_embed m)" using j L by simp
    ultimately show ?thesis using e te pe by simp
  qed
  then show ?thesis
    using ids by (auto simp: shape3_nth ids_ok_nth embed_pure_def)
qed

lemma embed_pure_append:
  assumes "list_all (\<lambda>r. length r = P) io" "length io = length inew"
  shows "embed_pure m off (map2 (@) io inew) =
         map2 (@) (embed_pure m off io) (embed_pure m (off + P) inew)"
proof (rule nth_equalityI)
  show "length (embed_pure m off (map2 (@) io inew)) =
        length (map2 (@) (embed_pure m off io) (embed_pure m (off + P) inew))"
    using assms by (simp add: embed_pure_def)
next
  fix i assume "i < length (embed_pure m off (map2 (@) io inew))"
  then have i: "i < length io" "i < length inew" using assms by (simp_all add: embed_pure_def)
  then have len: "length (io ! i) = P" using assms(1) by (simp add: list_all_length)
  have "[off..<off + (P + n)] = [off..<off + P] @ [off + P..<off + P + n]" for n
    by (metis upt_add_eq_append le_add1 add.assoc)
  then show "embed_pure m off (map2 (@) io inew) ! i =
        map2 (@) (embed_pure m off io) (embed_pure m (off + P) inew) ! i"
    using i len by (simp add: embed_pure_def)
qed

lemma head_pure_append:
  "length xo = length xn \<Longrightarrow>
   head_pure m (map2 (@) xo xn) = map2 (@) (head_pure m xo) (head_pure m xn)"
  by (rule nth_equalityI)
     (simp_all add: head_pure_def Linear_forward_def nn_LayerNorm_forward_def)

lemma head_pure_shape:
  assumes "wf_Transformer H m" "shape3 B S H x"
  shows "shape3 B S (length (token_embed m)) (head_pure m x)"
  using assms
  by (auto simp: shape3_nth head_pure_def Linear_forward_def nn_LayerNorm_forward_def
      wf_Transformer_def Linear_row_length_min wf_Linear_def)

lemma layers_out_shape:
  assumes "list_all (wf_DecoderBlock H) bs" "shape3 B S H x"
  shows "shape3 B S H (layers_out bs x ps)"
  using assms
proof (induction bs x ps rule: layers_out.induct)
  case (1 b bs x p ps)
  then show ?case by (simp add: block_pure_shape)
qed simp_all

lemma layers_kvs_length [simp]: "length (layers_kvs bs x ps) = min (length bs) (length ps)"
  by (induction bs x ps rule: layers_kvs.induct) simp_all

lemma block_kv_wf_kv:
  assumes wf: "wf_DecoderBlock H b" and x: "shape3 B S H x" and B: "1 \<le> B" and p: "wf_kv B H p"
  shows "wf_kv B H (block_kv b p x)" and "size1 (fst (block_kv b p x)) = size1 (fst p) + S"
proof -
  note s = block_kv_wf[OF wf x wf_kvD[OF p]]
  have "fst (block_kv b p x) \<noteq> []"
    using s(1) B by (auto simp: shape3_def)
  then show sz: "size1 (fst (block_kv b p x)) = size1 (fst p) + S"
    using s(1) by (simp add: size1_shape3)
  show "wf_kv B H (block_kv b p x)"
    using s by (simp add: wf_kv_def sz)
qed

lemma layers_kvs_wf:
  assumes "list_all (wf_DecoderBlock H) bs" "shape3 B S H x" "1 \<le> B" "list_all (wf_kv B H) ps"
  shows "list_all (wf_kv B H) (layers_kvs bs x ps)"
  using assms
proof (induction bs x ps rule: layers_kvs.induct)
  case (1 b bs x p ps)
  then show ?case by (simp add: block_pure_shape block_kv_wf_kv)
qed simp_all

lemma layers_kvs_size1:
  assumes "list_all (wf_DecoderBlock H) bs" "shape3 B S H x" "1 \<le> B" "list_all (wf_kv B H) ps"
  shows "map (\<lambda>p. size1 (fst p)) (layers_kvs bs x ps)
         = map (\<lambda>p. size1 (fst p) + S) (take (length bs) ps)"
  using assms
proof (induction bs x ps rule: layers_kvs.induct)
  case (1 b bs x p ps)
  have "size1 (fst (block_kv b p x)) = size1 (fst p) + S"
    using 1 by (intro block_kv_wf_kv(2)[of H b B S x p]) simp_all
  then show ?case using 1 by (simp add: block_pure_shape)
qed simp_all

lemma forward_Some:
  assumes wf: "wf_Transformer H m" and ids: "ids_ok (length (token_embed m)) B T ids"
    and B: "1 \<le> B" and T: "1 \<le> T"
    and L: "past_len (Some ps) + T \<le> length (position_embed m)"
    and n: "length (hidden_layers m) \<le> length ps" and ps: "list_all (wf_kv B H) ps"
  shows "Transformer_forward m ids (Some ps) True =
           Inr (head_pure m (layers_out (hidden_layers m) (embed_pure m (past_len (Some ps)) ids) ps),
                Some (layers_kvs (hidden_layers m) (embed_pure m (past_len (Some ps)) ids) ps))"
proof -
  let ?x = "embed_pure m (past_len (Some ps)) ids"
  have x: "shape3 B T H ?x" by (rule embed_pure_shape[OF wf ids L])
  have bs: "list_all (wf_DecoderBlock H) (hidden_layers m)"
    using wf by (simp add: wf_Transformer_def)
  have loop: "layers_loop (hidden_layers m) 0 ?x (Some ps) True [] =
      Inr (layers_out (hidden_layers m) ?x ps, layers_kvs (hidden_layers m) ?x ps)"
    using layers_loop_Some[OF bs x T, of 0 ps "[]"] n ps by simp
  show ?thesis
    unfolding Transformer_forward_def Let_def
    by (simp add: embed_model[OF ids B L] loop head_pure_def)
qed

lemma forward_None:
  assumes wf: "wf_Transformer H m" and ids: "ids_ok (length (token_embed m)) B T ids"
    and B: "1 \<le> B" and T: "1 \<le> T"
    and L: "T \<le> length (position_embed m)"
  shows "Transformer_forward m ids None use_cache =
           Inr (head_pure m (layers_out (hidden_layers m) (embed_pure m 0 ids)
                  (empty_kvs (length (hidden_layers m)) B)),
                if use_cache
                then Some (layers_kvs (hidden_layers m) (embed_pure m 0 ids)
                  (empty_kvs (length (hidden_layers m)) B))
                else None)"
proof -
  let ?x = "embed_pure m 0 ids"
  have L': "past_len None + T \<le> length (position_embed m)" using L by (simp add: past_len_def)
  have x: "shape3 B T H ?x" using embed_pure_shape[OF wf ids, of 0] L by simp
  have bs: "list_all (wf_DecoderBlock H) (hidden_layers m)"
    using wf by (simp add: wf_Transformer_def)
  note loop = layers_loop_None[OF bs x T, of 0 "[]"]
  have pl: "past_len None = 0" by (simp add: past_len_def)
  show ?thesis
    unfolding Transformer_forward_def Let_def
    using embed_model[OF ids B L'] loop by (cases use_cache) (simp_all add: head_pure_def pl)
qed

lemma forward_None_full:
  assumes "wf_Transformer H m" "ids_ok (length (token_embed m)) B T ids" "1 \<le> B" "1 \<le> T"
    "T \<le> length (position_embed m)"
  shows "Transformer_forward m ids None use_cache =
           Inr (full_logits m ids, if use_cache then Some (full_kvs m ids) else None)"
  using forward_None[OF assms] assms(2) by (simp add: full_logits_def full_kvs_def ids_ok_def)

lemma size1_empty_cache [simp]: "size1 (empty_cache B) = 0"
  by (cases B) (simp_all add: size1_def empty_cache_def)

lemma empty_kvs_wf: "list_all (wf_kv B H) (empty_kvs n B)"
  by (simp add: empty_kvs_def list_all_iff wf_kv_def shape3_empty)

lemma empty_kvs_ok: "list_all (kv_ok B) (empty_kvs n B)"
  using empty_kvs_wf[of B 0 n] by (auto simp: list_all_iff intro: wf_kv_ok)

lemma map2_append_assoc:
  "map2 (@) (map2 (@) a b) c = map2 (@) a (map2 (@) b c)"
proof (rule nth_equalityI)
  show "length (map2 (@) (map2 (@) a b) c) = length (map2 (@) a (map2 (@) b c))" by simp
next
  fix i assume "i < length (map2 (@) (map2 (@) a b) c)"
  then show "map2 (@) (map2 (@) a b) c ! i = map2 (@) a (map2 (@) b c) ! i" by simp
qed

lemma ids_ok_append:
  assumes "ids_ok V B P io" "ids_ok V B S inew"
  shows "ids_ok V B (P + S) (map2 (@) io inew)"
  using assms by (auto simp: ids_ok_nth)

lemma full_append:
  assumes wf: "wf_Transformer H m"
    and io: "ids_ok (length (token_embed m)) B P io"
    and inew: "ids_ok (length (token_embed m)) B S inew"
    and L: "P + S \<le> length (position_embed m)"
  shows "full_kvs m (map2 (@) io inew) =
           layers_kvs (hidden_layers m) (embed_pure m P inew) (full_kvs m io)"
    and "full_logits m (map2 (@) io inew) =
           map2 (@) (full_logits m io)
             (head_pure m (layers_out (hidden_layers m) (embed_pure m P inew) (full_kvs m io)))"
proof -
  let ?bs = "hidden_layers m"
  let ?E = "empty_kvs (length ?bs) B"
  let ?xo = "embed_pure m 0 io"
  let ?xn = "embed_pure m P inew"
  have lB: "length io = B" "length inew = B" using io inew by (simp_all add: ids_ok_def)
  have bsw: "list_all (wf_DecoderBlock H) ?bs"
    using wf by (simp add: wf_Transformer_def)
  have xo: "shape3 B P H ?xo"
    using embed_pure_shape[OF wf io, of 0] L by simp
  have xn: "shape3 B S H ?xn"
    using embed_pure_shape[OF wf inew, of P] L by simp
  have emb: "embed_pure m 0 (map2 (@) io inew) = map2 (@) ?xo ?xn"
    using embed_pure_append[of P io inew m 0] io lB by (simp add: ids_ok_def list_all_iff)
  have app: "layers_out ?bs (map2 (@) ?xo ?xn) ?E =
           map2 (@) (layers_out ?bs ?xo ?E) (layers_out ?bs ?xn (layers_kvs ?bs ?xo ?E)) \<and>
         layers_kvs ?bs (map2 (@) ?xo ?xn) ?E = layers_kvs ?bs ?xn (layers_kvs ?bs ?xo ?E)"
    using xo xn by (intro layers_append[OF _ _ empty_kvs_ok]) (simp_all add: shape3_def)
  have len: "length (layers_out ?bs ?xo ?E) = length (layers_out ?bs ?xn (layers_kvs ?bs ?xo ?E))"
    using layers_out_shape[OF bsw xo] layers_out_shape[OF bsw xn] by (simp add: shape3_def)
  show "full_kvs m (map2 (@) io inew) = layers_kvs ?bs ?xn (full_kvs m io)"
    using app by (simp add: full_kvs_def emb lB)
  show "full_logits m (map2 (@) io inew) =
          map2 (@) (full_logits m io) (head_pure m (layers_out ?bs ?xn (full_kvs m io)))"
    using app head_pure_append[OF len] by (simp add: full_logits_def full_kvs_def emb lB)
qed

lemma full_logits_shape:
  assumes wf: "wf_Transformer H m" and ids: "ids_ok (length (token_embed m)) B T ids"
    and L: "T \<le> length (position_embed m)"
  shows "shape3 B T (length (token_embed m)) (full_logits m ids)"
proof -
  have x: "shape3 B T H (embed_pure m 0 ids)"
    using embed_pure_shape[OF wf ids, of 0] L by simp
  have bsw: "list_all (wf_DecoderBlock H) (hidden_layers m)"
    using wf by (simp add: wf_Transformer_def)
  show ?thesis
    unfolding full_logits_def by (rule head_pure_shape[OF wf layers_out_shape[OF bsw x]])
qed

lemma full_kvs_wf:
  assumes wf: "wf_Transformer H m" and ids: "ids_ok (length (token_embed m)) B T ids"
    and B: "1 \<le> B" and L: "T \<le> length (position_embed m)"
  shows "list_all (wf_kv B H) (full_kvs m ids)"
    and "length (full_kvs m ids) = length (hidden_layers m)"
    and "map (\<lambda>p. size1 (fst p)) (full_kvs m ids) = replicate (length (hidden_layers m)) T"
proof -
  have x: "shape3 B T H (embed_pure m 0 ids)"
    using embed_pure_shape[OF wf ids, of 0] L by simp
  have bsw: "list_all (wf_DecoderBlock H) (hidden_layers m)"
    using wf by (simp add: wf_Transformer_def)
  have lB: "length ids = B" using ids by (simp add: ids_ok_def)
  show "list_all (wf_kv B H) (full_kvs m ids)"
    unfolding full_kvs_def lB by (rule layers_kvs_wf[OF bsw x B empty_kvs_wf])
  show "length (full_kvs m ids) = length (hidden_layers m)"
    by (simp add: full_kvs_def empty_kvs_def)
  have "map (\<lambda>p. size1 (fst p)) (full_kvs m ids)
        = map (\<lambda>p. size1 (fst p) + T) (take (length (hidden_layers m)) (empty_kvs (length (hidden_layers m)) B))"
    unfolding full_kvs_def lB by (rule layers_kvs_size1[OF bsw x B empty_kvs_wf])
  then show "map (\<lambda>p. size1 (fst p)) (full_kvs m ids) = replicate (length (hidden_layers m)) T"
    by (simp add: empty_kvs_def)
qed

lemma past_len_full_kvs:
  assumes wf: "wf_Transformer H m" and io: "ids_ok (length (token_embed m)) B P io"
    and B: "1 \<le> B" and L: "P \<le> length (position_embed m)"
    and n: "hidden_layers m \<noteq> [] \<or> P = 0"
  shows "past_len (Some (full_kvs m io)) = P"
proof (cases "hidden_layers m")
  case Nil
  then show ?thesis using n by (simp add: full_kvs_def past_len_def)
next
  case (Cons b bs)
  then obtain p ps where "full_kvs m io = p # ps" "size1 (fst p) = P"
    using full_kvs_wf(3)[OF wf io B L] by (cases "full_kvs m io") auto
  then show ?thesis by (simp add: past_len_def)
qed

lemma step_full:
  assumes wf: "wf_Transformer H m"
    and io: "ids_ok (length (token_embed m)) B P io"
    and inew: "ids_ok (length (token_embed m)) B S inew"
    and B: "1 \<le> B" and S: "1 \<le> S" and L: "P + S \<le> length (position_embed m)"
    and n: "hidden_layers m \<noteq> [] \<or> P = 0"
  shows "\<exists>N. Transformer_forward m inew (Some (full_kvs m io)) True =
               Inr (N, Some (full_kvs m (map2 (@) io inew))) \<and>
             full_logits m (map2 (@) io inew) = map2 (@) (full_logits m io) N \<and>
             shape3 B S (length (token_embed m)) N"
proof -
  let ?bs = "hidden_layers m"
  let ?xn = "embed_pure m P inew"
  let ?N = "head_pure m (layers_out ?bs ?xn (full_kvs m io))"
  have bsw: "list_all (wf_DecoderBlock H) ?bs"
    using wf by (simp add: wf_Transformer_def)
  have xn: "shape3 B S H ?xn"
    using embed_pure_shape[OF wf inew, of P] L by simp
  have LP: "P \<le> length (position_embed m)" using L by simp
  have pl: "past_len (Some (full_kvs m io)) = P"
    by (rule past_len_full_kvs[OF wf io B LP n])
  note ps = full_kvs_wf[OF wf io B LP]
  have fw: "Transformer_forward m inew (Some (full_kvs m io)) True =
      Inr (?N, Some (layers_kvs ?bs ?xn (full_kvs m io)))"
  proof -
    have "length ?bs \<le> length (full_kvs m io)" using ps(2) by simp
    moreover have "past_len (Some (full_kvs m io)) + S \<le> length (position_embed m)"
      using L pl by simp
    ultimately show ?thesis
      using forward_Some[OF wf inew B S _ _ ps(1)] pl by simp
  qed
  have shp: "shape3 B S (length (token_embed m)) ?N"
    by (rule head_pure_shape[OF wf layers_out_shape[OF bsw xn]])
  show ?thesis
    using fw full_append[OF wf io inew L] shp by simp
qed

lemma ids_ok_take_drop:
  assumes "ids_ok V B (s + r) ids"
  shows "ids_ok V B s (map (take s) ids)" "ids_ok V B r (map (drop s) ids)"
    "map2 (@) (map (take s) ids) (map (drop s) ids) = ids"
proof -
  show "ids_ok V B s (map (take s) ids)"
    using assms by (auto simp: ids_ok_nth dest: in_set_takeD)
  show "ids_ok V B r (map (drop s) ids)"
    using assms by (auto simp: ids_ok_nth dest: in_set_dropD)
  show "map2 (@) (map (take s) ids) (map (drop s) ids) = ids"
    by (rule nth_equalityI) simp_all
qed

lemma chunks_full:
  assumes wf: "wf_Transformer H m" and B: "1 \<le> B"
    and sizes: "sizes \<noteq> []" "list_all (\<lambda>s. 1 \<le> s) sizes"
    and io: "ids_ok (length (token_embed m)) B P io"
    and inew: "ids_ok (length (token_embed m)) B (sum_list sizes) inew"
    and L: "P + sum_list sizes \<le> length (position_embed m)"
    and n: "hidden_layers m \<noteq> []"
  shows "\<exists>lgs N. forward_chunks m (slices sizes inew) (Some (full_kvs m io)) =
                  Inr (lgs, Some (full_kvs m (map2 (@) io inew))) \<and>
                cat_all lgs = Inr N \<and>
                full_logits m (map2 (@) io inew) = map2 (@) (full_logits m io) N \<and>
                shape3 B (sum_list sizes) (length (token_embed m)) N"
  using sizes io inew L
proof (induction sizes arbitrary: io inew P)
  case Nil
  then show ?case by simp
next
  case (Cons s ss)
  let ?V = "length (token_embed m)"
  let ?c = "map (take s) inew" and ?rest = "map (drop s) inew"
  have s: "1 \<le> s" and ss: "list_all (\<lambda>s. 1 \<le> s) ss" using Cons.prems(2) by simp_all
  have inew': "ids_ok ?V B (s + sum_list ss) inew" using Cons.prems(4) by simp
  note td = ids_ok_take_drop[OF inew']
  have Ls: "P + s \<le> length (position_embed m)" using Cons.prems(5) by simp
  obtain N1 where fw: "Transformer_forward m ?c (Some (full_kvs m io)) True =
               Inr (N1, Some (full_kvs m (map2 (@) io ?c)))"
    and lg1: "full_logits m (map2 (@) io ?c) = map2 (@) (full_logits m io) N1"
    and sh1: "shape3 B s ?V N1"
    using step_full[OF wf Cons.prems(3) td(1) B s Ls] n by blast
  show ?case
  proof (cases "ss = []")
    case True
    then have "?c = inew"
      using inew' by (intro nth_equalityI) (simp_all add: ids_ok_nth)
    then show ?thesis using fw lg1 sh1 True by simp
  next
    case False
    have io': "ids_ok ?V B (P + s) (map2 (@) io ?c)"
      by (rule ids_ok_append[OF Cons.prems(3) td(1)])
    have L': "P + s + sum_list ss \<le> length (position_embed m)" using Cons.prems(5) by simp
    obtain lgs N where fc: "forward_chunks m (slices ss ?rest) (Some (full_kvs m (map2 (@) io ?c))) =
                  Inr (lgs, Some (full_kvs m (map2 (@) (map2 (@) io ?c) ?rest)))"
      and ca: "cat_all lgs = Inr N"
      and lg: "full_logits m (map2 (@) (map2 (@) io ?c) ?rest) = map2 (@) (full_logits m (map2 (@) io ?c)) N"
      and sh: "shape3 B (sum_list ss) ?V N"
      using Cons.IH[OF False ss io' td(2) L'] by blast
    have assoc: "map2 (@) (map2 (@) io ?c) ?rest = map2 (@) io inew"
      by (simp add: map2_append_assoc td(3))
    from ca obtain u ts where lgs: "lgs = u # ts" by (cases lgs) auto
    have cat: "cat_all (N1 # lgs) = Inr (map2 (@) N1 N)"
      using ca cat_dim1_shape(1)[OF sh1 sh] by (simp add: lgs)
    have shN: "shape3 B (sum_list (s # ss)) ?V (map2 (@) N1 N)"
      using cat_dim1_shape(2)[OF sh1 sh] by simp
    have "full_logits m (map2 (@) io inew) = full_logits m (map2 (@) (map2 (@) io ?c) ?rest)"
      by (simp only: assoc)
    also have "\<dots> = map2 (@) (map2 (@) (full_logits m io) N1) N"
      by (simp only: lg lg1)
    also have "\<dots> = map2 (@) (full_logits m io) (map2 (@) N1 N)"
      by (rule map2_append_assoc)
    finally have lgN: "full_logits m (map2 (@) io inew) = map2 (@) (full_logits m io) (map2 (@) N1 N)" .
    have "forward_chunks m (slices (s # ss) inew) (Some (full_kvs m io)) =
            Inr (N1 # lgs, Some (full_kvs m (map2 (@) io inew)))"
      by (simp only: slices.simps forward_chunks.simps fw fc assoc sum.case prod.case)
    then show ?thesis
      using cat shN lgN by blast
  qed
qed

lemma embed_pure_empty: "embed_pure m off (replicate B []) = replicate B []"
  by (simp add: embed_pure_def)

lemma block_empty_rows:
  "block_pure b (empty_cache B) (empty_cache B) (replicate B []) = replicate B []"
  "block_kv b (empty_cache B, empty_cache B) (replicate B []) = (empty_cache B, empty_cache B)"
proof -
  show "block_pure b (empty_cache B) (empty_cache B) (replicate B []) = replicate B []"
    by (rule nth_equalityI)
       (simp_all add: block_pure_def block_sample_def empty_cache_def attn_sample_def attend_rows_def)
  have "map2 (@) (replicate B []) (replicate B ([]::matrix)) = replicate B []"
    by (rule nth_equalityI) simp_all
  then show "block_kv b (empty_cache B, empty_cache B) (replicate B []) = (empty_cache B, empty_cache B)"
    by (simp add: block_kv_def empty_cache_def block_keys_def block_values_def)
qed

lemma layers_empty_rows:
  "layers_out bs (replicate B []) (empty_kvs n B) = replicate B [] \<and>
   layers_kvs bs (replicate B []) (empty_kvs (length bs) B) = empty_kvs (length bs) B"
proof -
  have "layers_out bs (replicate B []) (empty_kvs n B) = replicate B []" for n
  proof (induction bs arbitrary: n)
    case Nil
    then show ?case by simp
  next
    case (Cons b bs)
    then show ?case by (cases n) (simp_all add: empty_kvs_def block_empty_rows)
  qed
  moreover have "layers_kvs bs (replicate B []) (empty_kvs (length bs) B) = empty_kvs (length bs) B"
    by (induction bs) (simp_all add: empty_kvs_def block_empty_rows)
  ultimately show ?thesis by simp
qed

lemma full_empty:
  "full_kvs m (replicate B []) = empty_kvs (length (hidden_layers m)) B"
  "full_logits m (replicate B []) = replicate B []"
  using layers_empty_rows[of "hidden_layers m" B "length (hidden_layers m)"]
  by (simp_all add: full_kvs_def full_logits_def embed_pure_empty head_pure_def
      Linear_forward_def nn_LayerNorm_forward_def)

lemma past_len_empty_kvs [simp]: "past_len (Some (empty_kvs n B)) = 0"
  by (cases n) (simp_all add: past_len_def empty_kvs_def)

lemma length_empty_kvs [simp]: "length (empty_kvs n B) = n"
  by (simp add: empty_kvs_def)

lemma forward_None_empty:
  assumes wf: "wf_Transformer H m" and ids: "ids_ok (length (token_embed m)) B T ids"
    and B: "1 \<le> B" and T: "1 \<le> T" and L: "T \<le> length (position_embed m)"
  shows "Transformer_forward m ids None True =
         Transformer_forward m ids (Some (empty_kvs (length (hidden_layers m)) B)) True"
proof -
  have "Transformer_forward m ids (Some (empty_kvs (length (hidden_layers m)) B)) True =
        Inr (full_logits m ids, Some (full_kvs m ids))"
    using forward_Some[OF wf ids B T _ _ empty_kvs_wf, of "length (hidden_layers m)"] L ids
    by (simp add: full_logits_def full_kvs_def ids_ok_def)
  then show ?thesis
    using forward_None_full[OF wf ids B T L, of True] by simp
qed

lemma chunked_exact:
  assumes wf: "wf_Transformer H m" and B: "1 \<le> B"
    and sizes: "sizes \<noteq> []" "list_all (\<lambda>s. 1 \<le> s) sizes"
    and ids: "ids_ok (length (token_embed m)) B (sum_list sizes) ids"
    and L: "sum_list sizes \<le> length (position_embed m)"
    and n: "hidden_layers m \<noteq> []"
  shows "\<exists>lgs. forward_chunks m (slices sizes ids) None = Inr (lgs, Some (full_kvs m ids)) \<and>
               cat_all lgs = Inr (full_logits m ids)"
proof -
  let ?io = "replicate B ([]::nat list)"
  have lB: "length ids = B" using ids by (simp add: ids_ok_def)
  have io: "ids_ok (length (token_embed m)) B 0 ?io" by (simp add: ids_ok_nth)
  have cat: "map2 (@) ?io ids = ids" using lB by (intro nth_equalityI) simp_all
  obtain lgs N where fc: "forward_chunks m (slices sizes ids) (Some (full_kvs m ?io)) =
                  Inr (lgs, Some (full_kvs m (map2 (@) ?io ids)))"
    and ca: "cat_all lgs = Inr N"
    and lg: "full_logits m (map2 (@) ?io ids) = map2 (@) (full_logits m ?io) N"
    and sh: "shape3 B (sum_list sizes) (length (token_embed m)) N"
    using chunks_full[OF wf B sizes io ids _ n] L by auto
  have "map2 (@) (replicate B []) N = N"
    using sh by (intro nth_equalityI) (simp_all add: shape3_def)
  then have N: "N = full_logits m ids" using lg by (simp only: cat full_empty)
  obtain s ss where sz: "sizes = s # ss" using sizes(1) by (cases sizes) auto
  have s: "1 \<le> s" "s \<le> sum_list sizes" using sizes(2) sz by simp_all
  have c: "ids_ok (length (token_embed m)) B s (map (take s) ids)"
    using ids s by (auto simp: ids_ok_nth dest: in_set_takeD)
  have "Transformer_forward m (map (take s) ids) None True =
        Transformer_forward m (map (take s) ids) (Some (full_kvs m ?io)) True"
    using forward_None_empty[OF wf c B s(1)] s(2) L by (simp add: full_empty)
  then have "forward_chunks m (slices sizes ids) None =
             forward_chunks m (slices sizes ids) (Some (full_kvs m ?io))"
    by (simp add: sz)
  then show ?thesis using fc ca N by (simp only: cat) simp
qed

section \<open>Lemmas: the small models\<close>

lemma ex_block_wf: "wf_DecoderBlock 2 ex_block"
  by (simp add: wf_DecoderBlock_def ex_block_def wf_LayerNorm_def ex_norm_def wf_attn_def
      ex_attn_def wf_Linear_def wf_MLP_def ex_mlp_def)

lemma ex_model_wf: "wf_Transformer 2 ex_model"
  by (simp add: wf_Transformer_def ex_model_def ex_block_wf wf_Linear_def)

lemma ex_model_sizes:
  "length (token_embed ex_model) = 2" "length (position_embed ex_model) = 3"
  "hidden_layers ex_model \<noteq> []"
  by (simp_all add: ex_model_def)

lemma zero_layer_full:
  "Transformer_forward zero_layer_model [[0, 0]] None False =
     Inr ([[[1 / sqrt (100001 / 100000), - 1 / sqrt (100001 / 100000)],
            [- 1 / sqrt (100001 / 100000), 1 / sqrt (100001 / 100000)]]], None)"
  by (simp add: Transformer_forward_def Embedding_forward_def position_ids_def past_len_def size1_def
  add_broadcast_def dropout_def nn_LayerNorm_forward_def Linear_forward_def Linear_row_def dot_def upt_conv_Cons Let_def 
  nn_LayerNorm_row_def mean_def var_biased_def zero_layer_model_def power2_eq_square)

lemma zero_layer_step:
  "Transformer_forward zero_layer_model [[0]] None True =
     Inr ([[[1 / sqrt (100001 / 100000), - 1 / sqrt (100001 / 100000)]]], Some [])"
  "Transformer_forward zero_layer_model [[0]] (Some []) True =
     Inr ([[[1 / sqrt (100001 / 100000), - 1 / sqrt (100001 / 100000)]]], Some [])"
  by (simp_all add: Transformer_forward_def Embedding_forward_def position_ids_def past_len_def size1_def
  add_broadcast_def dropout_def nn_LayerNorm_forward_def Linear_forward_def Linear_row_def dot_def upt_conv_Cons Let_def 
  nn_LayerNorm_row_def mean_def var_biased_def zero_layer_model_def power2_eq_square)

lemma zero_layer_chunked:
  "forward_chunks zero_layer_model (slices [1, 1] [[0, 0]]) None =
     Inr ([[[[1 / sqrt (100001 / 100000), - 1 / sqrt (100001 / 100000)]]],
           [[[1 / sqrt (100001 / 100000), - 1 / sqrt (100001 / 100000)]]]], Some [])"
  by (simp add: zero_layer_step)

lemma zero_layer_cat:
  "cat_all [[[[1 / sqrt (100001 / 100000), - 1 / sqrt (100001 / 100000)]]],
           [[[1 / sqrt (100001 / 100000), - 1 / sqrt (100001 / 100000)]]]] =
    Inr [[[1 / sqrt (100001 / 100000), - 1 / sqrt (100001 / 100000)], [1 / sqrt (100001 / 100000), - 1 / sqrt (100001 / 100000)]]]"
  by (simp add: cat_dim1_def uniform_width_def)

lemma sqrt_100001_bound: "sqrt (100001 / 100000) < 2"
proof -
  have "sqrt (100001 / 100000) < sqrt 4" by (rule real_sqrt_less_mono) simp
  then show ?thesis by simp
qed

lemma zero_layer_far:
  "1 / 100000 < \<bar>- 1 / sqrt (100001 / 100000) - 1 / sqrt (100001 / (100000::real))\<bar>"
proof -
  have "0 < sqrt (100001 / (100000::real))" by simp
  then have "1 / 2 < 1 / sqrt (100001 / 100000)"
    using sqrt_100001_bound by (simp add: field_simps)
  then show ?thesis by simp
qed

lemma zero_layer_not_less: "\<not> 1 / sqrt (100001 / 100000) < - (1 / sqrt (100001 / (100000::real)))"
proof -
  have "0 < 1 / sqrt (100001 / (100000::real))" by simp
  then show ?thesis by linarith
qed

lemma zero_layer_less: "- (1 / sqrt (100001 / 100000)) < 1 / sqrt (100001 / (100000::real))"
proof -
  have "0 < 1 / sqrt (100001 / (100000::real))" by simp
  then show ?thesis by linarith
qed

lemma zero_layer_first:
  "Transformer_forward zero_layer_model [[0]] None False =
     Inr ([[[1 / sqrt (100001 / 100000), - 1 / sqrt (100001 / 100000)]]], None)"
  by (simp_all add: Transformer_forward_def Embedding_forward_def position_ids_def past_len_def size1_def
  add_broadcast_def dropout_def nn_LayerNorm_forward_def Linear_forward_def Linear_row_def dot_def upt_conv_Cons Let_def 
  nn_LayerNorm_row_def mean_def var_biased_def zero_layer_model_def power2_eq_square)

lemma zero_layer_greedy: "greedy_decode zero_layer_model [[0]] 3 = Inr [[0, 0, 1]]"
  by (simp add: greedy_decode_def size1_def numeral_3_eq_3 zero_layer_full zero_layer_first next_tokens_def
      argmax_def zero_layer_not_less zero_layer_less append_tokens_def)

lemma zero_layer_cached: "greedy_decode_with_kv_cache zero_layer_model [[0]] 3 = Inr [[0, 0, 0]]"
  by (simp add: greedy_decode_with_kv_cache_def size1_def numeral_3_eq_3 zero_layer_step next_tokens_def
      argmax_def zero_layer_not_less zero_layer_less append_tokens_def)

section \<open>Lemmas: chunks and prefixes\<close>

lemma slices_take: "take j (slices sizes ids) = slices (take j sizes) ids"
proof (induction sizes arbitrary: j ids)
  case Nil
  then show ?case by simp
next
  case (Cons s ss)
  then show ?case by (cases j) simp_all
qed

lemma slices_prefix: "slices sa (map (take (sum_list sa + r)) ids) = slices sa ids"
proof (induction sa arbitrary: ids)
  case Nil
  then show ?case by simp
next
  case (Cons s ss)
  have d: "map (drop s) (map (take (sum_list (s # ss) + r)) ids)
           = map (take (sum_list ss + r)) (map (drop s) ids)"
    by (simp add: drop_take add.commute add.left_commute)
  have t: "map (take s) (map (take (sum_list (s # ss) + r)) ids) = map (take s) ids"
    by (simp add: min_def)
  show ?case
    unfolding slices.simps d t using Cons.IH[of "map (drop s) ids"] by simp
qed

lemma zero_layers_chunks:
  assumes wf: "wf_Transformer H m" and n: "hidden_layers m = []" and B: "1 \<le> B"
    and sizes: "list_all (\<lambda>s. 1 \<le> s) sizes"
    and ids: "ids_ok (length (token_embed m)) B (sum_list sizes) ids"
    and L: "sum_list sizes \<le> length (position_embed m)"
    and past: "past = None \<or> past = Some []"
  shows "\<exists>lgs. forward_chunks m (slices sizes ids) past =
               Inr (lgs, if sizes = [] then past else Some [])"
  using sizes ids L past
proof (induction sizes arbitrary: ids past)
  case Nil
  then show ?case by simp
next
  case (Cons s ss)
  let ?V = "length (token_embed m)"
  let ?c = "map (take s) ids" and ?rest = "map (drop s) ids"
  have s: "1 \<le> s" and ss: "list_all (\<lambda>s. 1 \<le> s) ss" using Cons.prems(1) by simp_all
  have ids': "ids_ok ?V B (s + sum_list ss) ids" using Cons.prems(2) by simp
  note td = ids_ok_take_drop[OF ids']
  have Ls: "s \<le> length (position_embed m)" and Lr: "sum_list ss \<le> length (position_embed m)"
    using Cons.prems(3) by simp_all
  have "\<exists>lg. Transformer_forward m ?c past True = Inr (lg, Some [])"
    using Cons.prems(4)
  proof
    assume "past = None"
    then show ?thesis using forward_None[OF wf td(1) B s Ls, of True] n by simp
  next
    assume p: "past = Some []"
    have "past_len (Some []) + s \<le> length (position_embed m)" using Ls by (simp add: past_len_def)
    from forward_Some[OF wf td(1) B s this] show ?thesis using n p by simp
  qed
  then obtain lg where fw: "Transformer_forward m ?c past True = Inr (lg, Some [])" by blast
  obtain lgs where "forward_chunks m (slices ss ?rest) (Some []) =
               Inr (lgs, if ss = [] then Some [] else Some [])"
    using Cons.IH[OF ss td(2) Lr, of "Some []"] by auto
  then show ?case using fw by simp
qed

section \<open>The two modes in exact arithmetic\<close>

text \<open>
  The notebook compares the logits of the two modes with \<^verbatim>\<open>torch.allclose(..., atol=1e-5)\<close>
  on 32-bit floats. The difference it bounds is made of rounding errors, which the model
  does not have: no statement of this theory gives a tolerance for the floats. What
  holds of the real numbers is this. Take well-formed parameters with one decoder block
  at least, a batch of \<open>B \<ge> 1\<close> sequences of ids of the vocabulary, no longer than the
  number of positions, cut into chunks of one or more tokens, and stop after any number
  \<open>j \<ge> 1\<close> of chunks, \<open>k\<close> tokens in all. The stateless pass over the prefix of length
  \<open>k\<close> and the chunked pass with the cache threaded forward both succeed; the
  concatenated logits of the chunks are the logits of the stateless pass; and the cache
  after chunk \<open>j\<close> is, layer by layer, the keys and values that one pass with no cache
  over the prefix computes.
\<close>

lemma exact_cache_equivalence:
  assumes "wf_Transformer H m" and "hidden_layers m \<noteq> []" and "1 \<le> B"
    and "list_all (\<lambda>s. 1 \<le> s) sizes"
    and "ids_ok (length (token_embed m)) B (sum_list sizes) ids"
    and "sum_list sizes \<le> length (position_embed m)"
    and "1 \<le> j" and "j \<le> length sizes"
  shows "\<exists>full kvs_full lgs cached kvs.
           Transformer_forward m (map (take (sum_list (take j sizes))) ids) None False
             = Inr (full, None) \<and>
           Transformer_forward m (map (take (sum_list (take j sizes))) ids) None True
             = Inr (full, Some kvs_full) \<and>
           forward_chunks m (take j (slices sizes ids)) None = Inr (lgs, Some kvs) \<and>
           cat_all lgs = Inr cached \<and>
           cached = full \<and> kvs = kvs_full"
proof -
  let ?V = "length (token_embed m)"
  let ?sa = "take j sizes"
  let ?k = "sum_list ?sa"
  let ?ids = "map (take ?k) ids"
  have sa: "?sa \<noteq> []" "list_all (\<lambda>s. 1 \<le> s) ?sa"
    using assms(4,7,8) by (auto simp: list_all_iff dest: in_set_takeD)
  have sum: "sum_list sizes = ?k + sum_list (drop j sizes)"
    by (metis append_take_drop_id sum_list.append)
  have ids: "ids_ok ?V B ?k ?ids"
    using ids_ok_take_drop(1)[of ?V B ?k "sum_list (drop j sizes)" ids] assms(5) sum by simp
  have L: "?k \<le> length (position_embed m)" using assms(6) sum by simp
  have chunks: "take j (slices sizes ids) = slices ?sa ?ids"
    using slices_prefix[of ?sa 0 ids] by (simp add: slices_take)
  obtain s ss where "?sa = s # ss" using sa(1) by (cases ?sa) auto
  then have k: "1 \<le> ?k" using sa(2) by simp
  note full = forward_None_full[OF assms(1) ids assms(3) k L]
  obtain lgs where "forward_chunks m (slices ?sa ?ids) None = Inr (lgs, Some (full_kvs m ?ids))"
    and "cat_all lgs = Inr (full_logits m ?ids)"
    using chunked_exact[OF assms(1,3) sa ids L assms(2)] by blast
  then show ?thesis
    using full[of False] full[of True]
    by (simp add: chunks)
qed

text \<open>
  For a model with no decoder block the two modes differ, in exact arithmetic already:
  the cache it returns is the empty list, \<^verbatim>\<open>if past_kvs:\<close> is false for it, and the second
  token is embedded at position 0 again instead of position 1. The logits of the second
  position differ by more than \<open>1e-5\<close>.
\<close>

lemma zero_layer_chunks_differ:
  "Transformer_forward zero_layer_model [[0, 0]] None False =
     Inr ([[[1 / sqrt (100001 / 100000), - 1 / sqrt (100001 / 100000)],
            [- 1 / sqrt (100001 / 100000), 1 / sqrt (100001 / 100000)]]], None) \<and>
   forward_chunks zero_layer_model (slices [1, 1] [[0, 0]]) None =
     Inr ([[[[1 / sqrt (100001 / 100000), - 1 / sqrt (100001 / 100000)]]],
           [[[1 / sqrt (100001 / 100000), - 1 / sqrt (100001 / 100000)]]]], Some []) \<and>
   cat_all [[[[1 / sqrt (100001 / 100000), - 1 / sqrt (100001 / 100000)]]],
            [[[1 / sqrt (100001 / 100000), - 1 / sqrt (100001 / 100000)]]]] =
     Inr [[[1 / sqrt (100001 / 100000), - 1 / sqrt (100001 / 100000)],
           [1 / sqrt (100001 / 100000), - 1 / sqrt (100001 / 100000)]]] \<and>
   1 / 100000 < \<bar>- 1 / sqrt (100001 / 100000) - 1 / sqrt (100001 / (100000::real))\<bar>"
  using zero_layer_full zero_layer_chunked zero_layer_cat zero_layer_far by blast

section \<open>Greedy decoding with and without cache\<close>

lemma argmax_from_less: "best < i \<Longrightarrow> argmax_from best bv i xs < i + length xs"
proof (induction xs arbitrary: best bv i)
  case Nil
  then show ?case by simp
next
  case (Cons x xs)
  have "argmax_from i x (Suc i) xs < Suc i + length xs"
    by (rule Cons.IH) simp
  moreover have "argmax_from best bv (Suc i) xs < Suc i + length xs"
    using Cons.prems by (intro Cons.IH) simp
  ultimately show ?case by simp
qed

lemma argmax_less: "argmax xs = Inr i \<Longrightarrow> i < length xs"
  using argmax_from_less[of 0 1] by (auto simp: argmax_def split: list.splits)

lemma argmax_Inr: "xs \<noteq> [] \<Longrightarrow> \<exists>i. argmax xs = Inr i"
  by (cases xs) (simp_all add: argmax_def)

lemma next_tokens_ok:
  assumes F: "shape3 B T V F" and T: "1 \<le> T" and V: "1 \<le> V"
  shows "\<exists>toks. next_tokens F = Inr toks \<and> length toks = B \<and> (\<forall>t\<in>set toks. t < V)"
proof -
  let ?f = "\<lambda>rows. if rows = [] then Inl IndexError else argmax (last rows)"
  let ?g = "\<lambda>rows. projr (argmax (last rows))"
  have row: "?f rows = Inr (?g rows) \<and> ?g rows < V" if "rows \<in> set F" for rows
  proof -
    have ne: "rows \<noteq> []"
      using that F T by (auto simp: shape3_def list_all_iff)
    then have "last rows \<in> set rows" by simp
    then have lst: "length (last rows) = V"
      using that F by (auto simp: shape3_def list_all_iff)
    have "last rows \<noteq> []" using lst V by auto
    then obtain i where i: "argmax (last rows) = Inr i"
      using argmax_Inr[of "last rows"] by blast
    then show ?thesis using ne lst argmax_less[OF i] by simp
  qed
  then have "sequence (map ?f F) = Inr (map ?g F)"
    by (intro sequence_map_Inr) simp
  then show ?thesis
    using row F by (auto simp: next_tokens_def shape3_def)
qed

lemma next_tokens_append:
  assumes "length G = length N" "\<And>rows. rows \<in> set N \<Longrightarrow> rows \<noteq> []"
  shows "next_tokens (map2 (@) G N) = next_tokens N"
proof -
  let ?f = "\<lambda>rows. if rows = [] then Inl IndexError else argmax (last rows)"
  have "map ?f (map2 (@) G N) = map ?f N"
  proof (rule nth_equalityI)
    show "length (map ?f (map2 (@) G N)) = length (map ?f N)" using assms(1) by simp
  next
    fix i assume "i < length (map ?f (map2 (@) G N))"
    then have i: "i < length N" "i < length G" using assms(1) by simp_all
    then have ne: "N ! i \<noteq> []" using assms(2) by simp
    then show "map ?f (map2 (@) G N) ! i = map ?f N ! i"
      using i by simp
  qed
  then show ?thesis by (simp only: next_tokens_def)
qed

lemma forward_overflow:
  assumes ids: "ids_ok (length (token_embed m)) B T ids" and B: "1 \<le> B" and T: "1 \<le> T"
    and L: "length (position_embed m) < past_len past + T"
  shows "Transformer_forward m ids past use_cache = Inl IndexError"
proof -
  have tok: "Embedding_forward (token_embed m) ids = Inr (map (map ((!) (token_embed m))) ids)"
    using ids by (auto simp: Embedding_forward_def ids_ok_def list_all_iff)
  have "past_len past + T - 1 \<in> set [past_len past..<past_len past + T]"
    using T by auto
  moreover have "\<not> past_len past + T - 1 < length (position_embed m)" using L by simp
  ultimately have "\<not> list_all (\<lambda>i. i < length (position_embed m)) [past_len past..<past_len past + T]"
    unfolding list_all_iff by blast
  then have "Embedding_forward (position_embed m) (position_ids ids past) = Inl IndexError"
    using size1_ids_ok[OF ids B] by (simp add: Embedding_forward_def position_ids_def)
  then show ?thesis
    by (simp add: Transformer_forward_def tok)
qed

lemma ids_ok_append_tokens:
  assumes "ids_ok V B T ids" "length toks = B" "\<forall>t\<in>set toks. t < V"
  shows "ids_ok V B (Suc T) (append_tokens ids toks)"
    and "map butlast (append_tokens ids toks) = ids"
    and "map (\<lambda>r. [last r]) (append_tokens ids toks) = map (\<lambda>t. [t]) toks"
proof -
  show "ids_ok V B (Suc T) (append_tokens ids toks)"
    using assms by (auto simp: ids_ok_nth append_tokens_def)
  show "map butlast (append_tokens ids toks) = ids"
    using assms by (intro nth_equalityI) (simp_all add: append_tokens_def ids_ok_def)
  show "map (\<lambda>r. [last r]) (append_tokens ids toks) = map (\<lambda>t. [t]) toks"
    using assms by (intro nth_equalityI) (simp_all add: append_tokens_def ids_ok_def)
qed

lemma ids_ok_butlast:
  assumes "ids_ok V B (Suc P) ids"
  shows "ids_ok V B P (map butlast ids)" "ids_ok V B 1 (map (\<lambda>r. [last r]) ids)"
    "map2 (@) (map butlast ids) (map (\<lambda>r. [last r]) ids) = ids"
proof -
  have ne: "ids ! i \<noteq> []" if "i < B" for i
    using assms that by (auto simp: ids_ok_nth)
  show "ids_ok V B P (map butlast ids)"
    using assms by (auto simp: ids_ok_nth dest: in_set_butlastD)
  show "ids_ok V B 1 (map (\<lambda>r. [last r]) ids)"
    using assms ne by (auto simp: ids_ok_nth)
  show "map2 (@) (map butlast ids) (map (\<lambda>r. [last r]) ids) = ids"
    using assms ne by (intro nth_equalityI) (simp_all add: ids_ok_nth)
qed

lemma greedy_loops_agree:
  assumes wf: "wf_Transformer H m" and n: "hidden_layers m \<noteq> []" and B: "1 \<le> B"
    and ids: "ids_ok (length (token_embed m)) B T ids" and T: "1 \<le> T"
    and st: "(past = None \<and> inp = ids) \<or>
             (T \<le> Suc (length (position_embed m)) \<and> 2 \<le> T \<and>
              past = Some (full_kvs m (map butlast ids)) \<and> inp = map (\<lambda>r. [last r]) ids)"
  shows "cached_loop m k inp past ids = greedy_loop m k ids"
  using ids T st
proof (induction k arbitrary: ids T inp past)
  case 0
  then show ?case by simp
next
  case (Suc k)
  let ?V = "length (token_embed m)" and ?L = "length (position_embed m)"
  note ids = Suc.prems(1) and T = Suc.prems(2) and st = Suc.prems(3)
  show ?case
  proof (cases "T \<le> ?L")
    case False
    then have TL: "?L < T" by simp
    have full: "Transformer_forward m ids None False = Inl IndexError"
      using forward_overflow[OF ids B T, of None] TL by (simp add: past_len_def)
    have "Transformer_forward m inp past True = Inl IndexError"
      using st
    proof
      assume "past = None \<and> inp = ids"
      then show ?thesis using forward_overflow[OF ids B T, of None] TL by (simp add: past_len_def)
    next
      assume a: "T \<le> Suc ?L \<and> 2 \<le> T \<and> past = Some (full_kvs m (map butlast ids)) \<and>
                 inp = map (\<lambda>r. [last r]) ids"
      then obtain P where P: "T = Suc P" "P = ?L" using TL by (cases T) auto
      note bl = ids_ok_butlast[OF ids[unfolded P(1)]]
      have "past_len past = P"
        using a past_len_full_kvs[OF wf bl(1) B _ ] n P by simp
      then show ?thesis
        using forward_overflow[OF bl(2) B, of past] a P by simp
    qed
    then show ?thesis using full by simp
  next
    case True
    have V: "1 \<le> ?V"
    proof -
      have 0: "0 < B" using B by simp
      have r: "length (ids ! 0) = T" "\<forall>t\<in>set (ids ! 0). t < ?V"
        using ids 0 unfolding ids_ok_nth by blast+
      then have "ids ! 0 \<noteq> []" using T by auto
      then obtain t where "t \<in> set (ids ! 0)" by (cases "ids ! 0") auto
      then have "t < ?V" using r(2) by blast
      then show ?thesis by simp
    qed
    have full: "Transformer_forward m ids None False = Inr (full_logits m ids, None)"
      using forward_None_full[OF wf ids B T True, of False] by simp
    have F: "shape3 B T ?V (full_logits m ids)"
      by (rule full_logits_shape[OF wf ids True])
    obtain toks where toks: "next_tokens (full_logits m ids) = Inr toks" "length toks = B"
      "\<forall>t\<in>set toks. t < ?V"
      using next_tokens_ok[OF F T V] by blast
    have cached: "\<exists>N. Transformer_forward m inp past True = Inr (N, Some (full_kvs m ids)) \<and>
                      next_tokens N = Inr toks"
      using st
    proof
      assume "past = None \<and> inp = ids"
      then show ?thesis
        using forward_None_full[OF wf ids B T True, of True] toks by simp
    next
      assume a: "T \<le> Suc ?L \<and> 2 \<le> T \<and> past = Some (full_kvs m (map butlast ids)) \<and>
                 inp = map (\<lambda>r. [last r]) ids"
      then obtain P where P: "T = Suc P" by (cases T) auto
      note bl = ids_ok_butlast[OF ids[unfolded P]]
      have L: "P + 1 \<le> ?L" using True P by simp
      obtain N where fw: "Transformer_forward m (map (\<lambda>r. [last r]) ids)
                 (Some (full_kvs m (map butlast ids))) True =
               Inr (N, Some (full_kvs m (map2 (@) (map butlast ids) (map (\<lambda>r. [last r]) ids))))"
        and lg: "full_logits m (map2 (@) (map butlast ids) (map (\<lambda>r. [last r]) ids))
                 = map2 (@) (full_logits m (map butlast ids)) N"
        and sh: "shape3 B 1 ?V N"
        using step_full[OF wf bl(1) bl(2) B _ L] n by auto
      have G: "shape3 B P ?V (full_logits m (map butlast ids))"
        using full_logits_shape[OF wf bl(1)] L by simp
      have "next_tokens (map2 (@) (full_logits m (map butlast ids)) N) = next_tokens N"
        using G sh by (intro next_tokens_append) (auto simp: shape3_def list_all_iff)
      then have "next_tokens N = Inr toks"
        using toks(1) lg by (simp only: bl(3))
      then show ?thesis using fw a by (simp only: bl(3)) simp
    qed
    then obtain N where fw: "Transformer_forward m inp past True = Inr (N, Some (full_kvs m ids))"
      and nt: "next_tokens N = Inr toks" by blast
    note app = ids_ok_append_tokens[OF ids toks(2,3)]
    have "cached_loop m k (map (\<lambda>t. [t]) toks) (Some (full_kvs m ids)) (append_tokens ids toks)
          = greedy_loop m k (append_tokens ids toks)"
    proof (rule Suc.IH[OF app(1)])
      show "1 \<le> Suc T" by simp
      show "Some (full_kvs m ids) = None \<and> map (\<lambda>t. [t]) toks = append_tokens ids toks \<or>
            Suc T \<le> Suc ?L \<and> 2 \<le> Suc T \<and>
            Some (full_kvs m ids) = Some (full_kvs m (map butlast (append_tokens ids toks))) \<and>
            map (\<lambda>t. [t]) toks = map (\<lambda>r. [last r]) (append_tokens ids toks)"
        using True T by (simp only: app(2,3)) simp
    qed
    then show ?thesis
      using full fw nt toks(1) by simp
  qed
qed

lemma greedy_loop_ok:
  assumes wf: "wf_Transformer H m" and B: "1 \<le> B"
    and ids: "ids_ok (length (token_embed m)) B T ids" and T: "1 \<le> T"
    and L: "T + k \<le> Suc (length (position_embed m))"
  shows "\<exists>out. greedy_loop m k ids = Inr out \<and> ids_ok (length (token_embed m)) B (T + k) out"
  using ids T L
proof (induction k arbitrary: ids T)
  case 0
  then show ?case by simp
next
  case (Suc k)
  let ?V = "length (token_embed m)" and ?L = "length (position_embed m)"
  note ids = Suc.prems(1) and T = Suc.prems(2)
  have TL: "T \<le> ?L" using Suc.prems(3) by simp
  have V: "1 \<le> ?V"
  proof -
    have 0: "0 < B" using B by simp
    have r: "length (ids ! 0) = T" "\<forall>t\<in>set (ids ! 0). t < ?V"
      using ids 0 unfolding ids_ok_nth by blast+
    then have "ids ! 0 \<noteq> []" using T by auto
    then obtain t where "t \<in> set (ids ! 0)" by (cases "ids ! 0") auto
    then have "t < ?V" using r(2) by blast
    then show ?thesis by simp
  qed
  have full: "Transformer_forward m ids None False = Inr (full_logits m ids, None)"
    using forward_None_full[OF wf ids B T TL, of False] by simp
  obtain toks where toks: "next_tokens (full_logits m ids) = Inr toks" "length toks = B"
    "\<forall>t\<in>set toks. t < ?V"
    using next_tokens_ok[OF full_logits_shape[OF wf ids TL] T V] by blast
  note app = ids_ok_append_tokens[OF ids toks(2,3)]
  obtain out where "greedy_loop m k (append_tokens ids toks) = Inr out"
    "ids_ok ?V B (Suc T + k) out"
    using Suc.IH[OF app(1)] Suc.prems(3) by auto
  then show ?case using full toks(1) by simp
qed

text \<open>
  Claim C2, for a model with at least one decoder block. For well-formed parameters and
  a batch of \<open>B \<ge> 1\<close> prompts of \<open>T \<ge> 1\<close> ids of the vocabulary, the cached decoder
  returns what the full-recompute decoder returns, for every target length; and when
  the target length is at most \<open>max_seq_len + 1\<close> both return a batch of token sequences.
\<close>

theorem greedy_decoders_agree:
  assumes "wf_Transformer H m" and "hidden_layers m \<noteq> []" and "1 \<le> B" and "1 \<le> T"
    and "ids_ok (length (token_embed m)) B T input_ids"
  shows "greedy_decode_with_kv_cache m input_ids max_len = greedy_decode m input_ids max_len \<and>
         (max_len \<le> Suc (length (position_embed m)) \<longrightarrow>
            (\<exists>out. greedy_decode m input_ids max_len = Inr out \<and>
                   ids_ok (length (token_embed m)) B (max T max_len) out))"
proof -
  have s1: "size1 input_ids = T" by (rule size1_ids_ok[OF assms(5,3)])
  have eq: "greedy_decode_with_kv_cache m input_ids max_len = greedy_decode m input_ids max_len"
    unfolding greedy_decode_with_kv_cache_def greedy_decode_def
    by (rule greedy_loops_agree[OF assms(1,2,3,5,4)]) simp
  have "\<exists>out. greedy_decode m input_ids max_len = Inr out \<and>
               ids_ok (length (token_embed m)) B (max T max_len) out"
    if "max_len \<le> Suc (length (position_embed m))"
  proof (cases "max_len \<le> T")
    case True
    then show ?thesis using assms(5) by (simp add: greedy_decode_def s1 max_def)
  next
    case False
    then have "T + (max_len - T) \<le> Suc (length (position_embed m))" using that by simp
    from greedy_loop_ok[OF assms(1,3,5,4) this] show ?thesis
      using False by (simp add: greedy_decode_def s1 max_def)
  qed
  then show ?thesis using eq by blast
qed

text \<open>The theorem at \<open>ex_model\<close>, from a prompt of one token to length 3.\<close>

theorem greedy_decoders_agree_witness:
  "wf_Transformer 2 ex_model \<and> hidden_layers ex_model \<noteq> [] \<and> (1::nat) \<le> 1 \<and>
   ids_ok (length (token_embed ex_model)) 1 1 [[0]] \<and>
   greedy_decode_with_kv_cache ex_model [[0]] 3 = greedy_decode ex_model [[0]] 3 \<and>
   (3::nat) \<le> Suc (length (position_embed ex_model)) \<and>
   (\<exists>out. greedy_decode ex_model [[0]] 3 = Inr out \<and>
          ids_ok (length (token_embed ex_model)) 1 (max 1 3) out)"
proof -
  have h: "wf_Transformer 2 ex_model" "hidden_layers ex_model \<noteq> []" "(1::nat) \<le> 1" "(1::nat) \<le> 1"
    "ids_ok (length (token_embed ex_model)) 1 1 [[0]]"
    by (simp_all add: ex_model_wf ex_model_sizes ids_ok_def)
  have l: "(3::nat) \<le> Suc (length (position_embed ex_model))"
    by (simp add: ex_model_sizes)
  show ?thesis
    using h l greedy_decoders_agree[OF h, of 3] by blast
qed

text \<open>
  Claim C2 as stated fails for the model with no decoder block: from the prompt \<open>[0]\<close>
  the full-recompute decoder reads the third token at position 1, the cached one at
  position 0 again.
\<close>

theorem greedy_decoders_agree_counterexample:
  "wf_Transformer 2 zero_layer_model \<and>
   ids_ok (length (token_embed zero_layer_model)) 1 1 [[0]] \<and>
   greedy_decode zero_layer_model [[0]] 3 = Inr [[0, 0, 1]] \<and>
   greedy_decode_with_kv_cache zero_layer_model [[0]] 3 = Inr [[0, 0, 0]]"
proof -
  have "wf_Transformer 2 zero_layer_model"
    by (simp add: wf_Transformer_def zero_layer_model_def wf_Linear_def)
  moreover have "ids_ok (length (token_embed zero_layer_model)) 1 1 [[0]]"
    by (simp add: ids_ok_def zero_layer_model_def)
  ultimately show ?thesis
    using zero_layer_greedy zero_layer_cached by blast
qed

section \<open>Causality\<close>

lemma take_append_rows:
  assumes "length G = length N" "list_all (\<lambda>s. length s = i) G"
  shows "map (take i) (map2 (@) G N) = G"
proof (rule nth_equalityI)
  show "length (map (take i) (map2 (@) G N)) = length G" using assms(1) by simp
next
  fix b assume "b < length (map (take i) (map2 (@) G N))"
  then have b: "b < length G" "b < length N" using assms(1) by simp_all
  then have "length (G ! b) = i" using assms(2) by (simp add: list_all_length)
  then show "map (take i) (map2 (@) G N) ! b = G ! b" using b by simp
qed

lemma full_logits_prefix:
  assumes wf: "wf_Transformer H m" and ids: "ids_ok (length (token_embed m)) B T ids"
    and L: "T \<le> length (position_embed m)"
  shows "map (take i) (full_logits m ids) = full_logits m (map (take i) ids)"
proof (cases "i < T")
  case False
  have "map (take i) ids = ids"
    using ids False by (intro nth_equalityI) (simp_all add: ids_ok_nth)
  moreover have "map (take i) (full_logits m ids) = full_logits m ids"
    using full_logits_shape[OF wf ids L] False
    by (intro nth_equalityI) (simp_all add: shape3_nth)
  ultimately show ?thesis by simp
next
  case True
  let ?V = "length (token_embed m)"
  let ?io = "map (take i) ids" and ?in = "map (drop i) ids"
  have split: "ids_ok ?V B (i + (T - i)) ids" using ids True by simp
  note td = ids_ok_take_drop[OF split]
  have L': "i + (T - i) \<le> length (position_embed m)" using L True by simp
  let ?N = "head_pure m (layers_out (hidden_layers m) (embed_pure m i ?in) (full_kvs m ?io))"
  have lg: "full_logits m (map2 (@) ?io ?in) = map2 (@) (full_logits m ?io) ?N"
    by (rule full_append(2)[OF wf td(1,2) L'])
  have G: "shape3 B i ?V (full_logits m ?io)"
    using full_logits_shape[OF wf td(1)] L' by simp
  have bsw: "list_all (wf_DecoderBlock H) (hidden_layers m)"
    using wf by (simp add: wf_Transformer_def)
  have "shape3 B (T - i) H (embed_pure m i ?in)"
    using embed_pure_shape[OF wf td(2), of i] L' by simp
  then have N: "shape3 B (T - i) ?V ?N"
    by (intro head_pure_shape[OF wf] layers_out_shape[OF bsw])
  have "map (take i) (map2 (@) (full_logits m ?io) ?N) = full_logits m ?io"
    using G N by (intro take_append_rows) (auto simp: shape3_def list_all_iff)
  then show ?thesis using lg by (simp only: td(3))
qed

text \<open>
  Claim C7. For well-formed parameters and two batches of \<open>B \<ge> 1\<close> sequences of
  \<open>T\<close> ids, \<open>1 \<le> T \<le> max_seq_len\<close>, that agree on their first \<open>i\<close> positions, the
  stateless passes succeed and their logits agree on the first \<open>i\<close> positions.
\<close>

theorem causality:
  assumes "wf_Transformer H m" and "1 \<le> B" and "1 \<le> T" and "T \<le> length (position_embed m)"
    and "ids_ok (length (token_embed m)) B T ids1"
    and "ids_ok (length (token_embed m)) B T ids2"
    and "map (take i) ids1 = map (take i) ids2"
  shows "\<exists>logits1 logits2.
           Transformer_forward m ids1 None False = Inr (logits1, None) \<and>
           Transformer_forward m ids2 None False = Inr (logits2, None) \<and>
           map (take i) logits1 = map (take i) logits2"
proof -
  have "map (take i) (full_logits m ids1) = map (take i) (full_logits m ids2)"
    using full_logits_prefix[OF assms(1,5,4), of i] full_logits_prefix[OF assms(1,6,4), of i]
      assms(7) by simp
  then show ?thesis
    using forward_None_full[OF assms(1,5,2,3,4), of False]
      forward_None_full[OF assms(1,6,2,3,4), of False] by simp
qed

text \<open>The theorem at \<open>ex_model\<close>: two sequences that differ in the third token only.\<close>

theorem causality_witness:
  "wf_Transformer 2 ex_model \<and> (1::nat) \<le> 1 \<and> (1::nat) \<le> 3 \<and>
   3 \<le> length (position_embed ex_model) \<and>
   ids_ok (length (token_embed ex_model)) 1 3 [[0, 1, 0]] \<and>
   ids_ok (length (token_embed ex_model)) 1 3 [[0, 1, 1]] \<and>
   map (take 2) [[0, 1, 0]] = map (take 2) [[0, 1, 1::nat]] \<and>
   (\<exists>logits1 logits2.
      Transformer_forward ex_model [[0, 1, 0]] None False = Inr (logits1, None) \<and>
      Transformer_forward ex_model [[0, 1, 1]] None False = Inr (logits2, None) \<and>
      map (take 2) logits1 = map (take 2) logits2)"
proof -
  have h: "wf_Transformer 2 ex_model" "(1::nat) \<le> 1" "(1::nat) \<le> 3"
    "3 \<le> length (position_embed ex_model)"
    "ids_ok (length (token_embed ex_model)) 1 3 [[0, 1, 0]]"
    "ids_ok (length (token_embed ex_model)) 1 3 [[0, 1, 1]]"
    "map (take 2) [[0, 1, 0]] = map (take 2) [[0, 1, 1::nat]]"
    by (simp_all add: ex_model_wf ex_model_sizes ids_ok_def)
  show ?thesis
    using h causality[OF h] by blast
qed

section \<open>The length of the cache\<close>

text \<open>
  Claim C8. For well-formed parameters and a batch cut into chunks of one or more
  tokens, after any number \<open>j \<ge> 1\<close> of chunks the chunked pass has succeeded and
  returned one cache entry per layer, and the keys and the values of every entry have
  the shape \<open>(B, n, H)\<close> with \<open>n\<close> the number of tokens processed so far: all layers
  share the length \<open>n\<close> at every observation point.
\<close>

theorem cache_length_invariant:
  assumes "wf_Transformer H m" and "1 \<le> B" and "list_all (\<lambda>s. 1 \<le> s) sizes"
    and "ids_ok (length (token_embed m)) B (sum_list sizes) ids"
    and "sum_list sizes \<le> length (position_embed m)"
    and "1 \<le> j" and "j \<le> length sizes"
  shows "\<exists>lgs kvs.
           forward_chunks m (take j (slices sizes ids)) None = Inr (lgs, Some kvs) \<and>
           length kvs = length (hidden_layers m) \<and>
           list_all (\<lambda>p. shape3 B (sum_list (take j sizes)) H (fst p) \<and>
                         shape3 B (sum_list (take j sizes)) H (snd p)) kvs"
proof -
  let ?V = "length (token_embed m)"
  let ?sa = "take j sizes"
  let ?n = "sum_list ?sa"
  let ?ids = "map (take ?n) ids"
  have sa: "?sa \<noteq> []" "list_all (\<lambda>s. 1 \<le> s) ?sa"
    using assms(3,6,7) by (auto simp: list_all_iff dest: in_set_takeD)
  have sum: "sum_list sizes = ?n + sum_list (drop j sizes)"
    by (metis append_take_drop_id sum_list.append)
  have ids: "ids_ok ?V B ?n ?ids"
    using ids_ok_take_drop(1)[of ?V B ?n "sum_list (drop j sizes)" ids] assms(4) sum by simp
  have L: "?n \<le> length (position_embed m)" using assms(5) sum by simp
  have chunks: "take j (slices sizes ids) = slices ?sa ?ids"
    using slices_prefix[of ?sa 0 ids] by (simp add: slices_take)
  show ?thesis
  proof (cases "hidden_layers m = []")
    case True
    obtain lgs where "forward_chunks m (slices ?sa ?ids) None = Inr (lgs, Some [])"
      using zero_layers_chunks[OF assms(1) True assms(2) sa(2) ids L, of None] sa(1) by auto
    then show ?thesis using True by (simp add: chunks)
  next
    case False
    obtain lgs where fc: "forward_chunks m (slices ?sa ?ids) None = Inr (lgs, Some (full_kvs m ?ids))"
      using chunked_exact[OF assms(1,2) sa ids L False] by blast
    note kv = full_kvs_wf[OF assms(1) ids assms(2) L]
    have "shape3 B ?n H (fst p) \<and> shape3 B ?n H (snd p)" if "p \<in> set (full_kvs m ?ids)" for p
    proof -
      have "wf_kv B H p" using kv(1) that by (simp add: list_all_iff)
      moreover have "size1 (fst p) \<in> set (map (\<lambda>p. size1 (fst p)) (full_kvs m ?ids))"
        using that by simp
      then have "size1 (fst p) = ?n" unfolding kv(3) by simp
      ultimately show ?thesis by (simp add: wf_kv_def)
    qed
    then show ?thesis using fc kv(2) by (simp add: chunks list_all_iff)
  qed
qed

text \<open>The theorem at \<open>ex_model\<close>, after both chunks of a sequence of three tokens.\<close>

theorem cache_length_invariant_witness:
  "wf_Transformer 2 ex_model \<and> (1::nat) \<le> 1 \<and> list_all (\<lambda>s. 1 \<le> s) [1, 2::nat] \<and>
   ids_ok (length (token_embed ex_model)) 1 (sum_list [1, 2]) [[0, 1, 0]] \<and>
   sum_list [1, 2] \<le> length (position_embed ex_model) \<and>
   (1::nat) \<le> 2 \<and> 2 \<le> length [1, 2::nat] \<and>
   (\<exists>lgs kvs.
      forward_chunks ex_model (take 2 (slices [1, 2] [[0, 1, 0]])) None = Inr (lgs, Some kvs) \<and>
      length kvs = length (hidden_layers ex_model) \<and>
      list_all (\<lambda>p. shape3 1 (sum_list (take 2 [1, 2])) 2 (fst p) \<and>
                    shape3 1 (sum_list (take 2 [1, 2])) 2 (snd p)) kvs)"
proof -
  have h: "wf_Transformer 2 ex_model" "(1::nat) \<le> 1" "list_all (\<lambda>s. 1 \<le> s) [1, 2::nat]"
    "ids_ok (length (token_embed ex_model)) 1 (sum_list [1, 2]) [[0, 1, 0]]"
    "sum_list [1, 2] \<le> length (position_embed ex_model)"
    "(1::nat) \<le> 2" "2 \<le> length [1, 2::nat]"
    by (simp_all add: ex_model_wf ex_model_sizes ids_ok_def)
  show ?thesis
    using h cache_length_invariant[OF h] by blast
qed

section \<open>Cache entries of different dimensions\<close>

lemma uniform_widthD:
  assumes "uniform_width t" "r1 \<in> set (concat t)" "r2 \<in> set (concat t)"
  shows "length r1 = length r2"
proof (cases "concat t")
  case Nil
  show ?thesis using assms(2) unfolding Nil by simp
next
  case (Cons r rs)
  then have "\<forall>s\<in>set (r # rs). length s = length r"
    using assms(1) by (simp add: uniform_width_def list_all_iff)
  then show ?thesis using assms(2,3) Cons by (metis)
qed

lemma cat_dim1_mismatch:
  assumes k: "shape3 B S H k" and B: "1 \<le> B" and S: "1 \<le> S"
    and a: "shape3 B' P H' a" and bad: "\<not> shape3 B P H a"
  shows "cat_dim1 a k = Inl RuntimeError"
proof (cases "B' = B")
  case False
  then show ?thesis using a k by (simp add: cat_dim1_def shape3_def)
next
  case True
  from bad a True obtain s r where sr: "s \<in> set a" "r \<in> set s" "length r \<noteq> H"
    by (auto simp: shape3_def list_all_iff)
  have "0 < length k" "0 < length (k ! 0)" using k B S by (auto simp: shape3_nth)
  then have kr: "k ! 0 \<in> set k" "k ! 0 ! 0 \<in> set (k ! 0)" by simp_all
  then have "length (k ! 0 ! 0) = H" using shape3_D(3)[OF k] by blast
  moreover have "r \<in> set (concat (a @ k))" "k ! 0 ! 0 \<in> set (concat (a @ k))"
    using sr kr by auto
  ultimately have "\<not> uniform_width (a @ k)"
    using uniform_widthD[of "a @ k" r "k ! 0 ! 0"] sr(3) by auto
  then show ?thesis by (simp add: cat_dim1_def)
qed

lemma attention_mismatch:
  assumes wf: "wf_attn H a" and x: "shape3 B S H x" and B: "1 \<le> B" and S: "1 \<le> S"
    and p: "wf_kv B' H' (pk, pv)" and bad: "\<not> wf_kv B H (pk, pv)"
  shows "SingleHeadSelfAttention_forward a x (Some (pk, pv)) = Inl RuntimeError"
proof -
  let ?k = "map (map (krow a)) x"
  let ?v = "map (map (vrow a)) x"
  have h: "hidden_size a = H" using wf by (simp add: wf_attn_def)
  have chk: "list_all (list_all (\<lambda>r. length r = hidden_size a)) x"
    using x h by (auto simp: shape3_def list_all_iff)
  have k: "shape3 B S H ?k" and v: "shape3 B S H ?v"
    using x wf by (auto intro!: shape3_map_rows simp: krow_length vrow_length)
  have pk: "shape3 B' (size1 pk) H' pk" and pv: "shape3 B' (size1 pk) H' pv"
    using p by (simp_all add: wf_kv_def)
  show ?thesis
  proof (cases "shape3 B (size1 pk) H pk")
    case False
    then have "cat_dim1 pk ?k = Inl RuntimeError"
      by (rule cat_dim1_mismatch[OF k B S pk])
    then show ?thesis
      unfolding SingleHeadSelfAttention_forward_def Let_def attn_qkv
      using chk by simp
  next
    case True
    then have "\<not> shape3 B (size1 pk) H pv" using bad by (simp add: wf_kv_def)
    then have "cat_dim1 pv ?v = Inl RuntimeError"
      by (rule cat_dim1_mismatch[OF v B S pv])
    moreover have "cat_dim1 pk ?k = Inr (map2 (@) pk ?k)"
      by (rule cat_dim1_shape(1)[OF True k])
    ultimately show ?thesis
      unfolding SingleHeadSelfAttention_forward_def Let_def attn_qkv
      using chk by simp
  qed
qed

lemma block_mismatch:
  assumes wf: "wf_DecoderBlock H b" and x: "shape3 B S H x" and B: "1 \<le> B" and S: "1 \<le> S"
    and p: "wf_kv B' H' p" and bad: "\<not> wf_kv B H p"
  shows "DecoderBlock_forward b x (Some p) True = Inl RuntimeError"
proof -
  let ?x1 = "norm_rows (ln_1 b) x"
  have x1: "shape3 B S H ?x1"
    using wf x by (intro norm_rows_shape) (simp_all add: wf_DecoderBlock_def)
  have n1: "LayerNorm_forward (ln_1 b) x = Inr ?x1"
    using wf x by (intro LayerNorm_forward_Inr) (simp_all add: wf_DecoderBlock_def)
  have wa: "wf_attn H (attn b)" using wf by (simp add: wf_DecoderBlock_def)
  obtain pk pv where pp: "p = (pk, pv)" by (cases p)
  have "SingleHeadSelfAttention_forward (attn b) ?x1 (Some (pk, pv)) = Inl RuntimeError"
    using attention_mismatch[OF wa x1 B S] p bad unfolding pp by blast
  then show ?thesis
    unfolding DecoderBlock_forward_def pp by (simp add: n1)
qed

lemma layers_loop_mismatch:
  assumes "list_all (wf_DecoderBlock H) bs" "shape3 B S H x" "1 \<le> B" "1 \<le> S"
    "i + length bs \<le> length ps" "list_all (\<lambda>p. \<exists>B' H'. wf_kv B' H' p) (drop i ps)"
    "\<not> list_all (wf_kv B H) (take (length bs) (drop i ps))"
  shows "layers_loop bs i x (Some ps) True acc = Inl RuntimeError"
  using assms
proof (induction bs arbitrary: i x acc)
  case Nil
  then show ?case by simp
next
  case (Cons b bs)
  have i: "i < length ps" using Cons.prems(5) by simp
  then have d: "drop i ps = ps ! i # drop (Suc i) ps" by (simp add: Cons_nth_drop_Suc)
  have wfb: "wf_DecoderBlock H b" and wfbs: "list_all (wf_DecoderBlock H) bs"
    using Cons.prems(1) by simp_all
  obtain B' H' where p': "wf_kv B' H' (ps ! i)"
    using Cons.prems(6) d by auto
  have rest: "list_all (\<lambda>p. \<exists>B' H'. wf_kv B' H' p) (drop (Suc i) ps)"
    using Cons.prems(6) d by simp
  show ?case
  proof (cases "wf_kv B H (ps ! i)")
    case False
    have "DecoderBlock_forward b x (Some (ps ! i)) True = Inl RuntimeError"
      by (rule block_mismatch[OF wfb Cons.prems(2,3,4) p' False])
    then show ?thesis using i by simp
  next
    case True
    obtain pk pv where pi: "ps ! i = (pk, pv)" by (cases "ps ! i")
    have shp: "shape3 B (size1 pk) H pk" "shape3 B (size1 pk) H pv"
      using wf_kvD[OF True] pi by simp_all
    have blk: "DecoderBlock_forward b x (Some (ps ! i)) True =
        Inr (block_pure b pk pv x, block_kv b (ps ! i) x)"
      unfolding pi using block_Some[OF wfb Cons.prems(2,4) shp] by (simp add: block_kv_def)
    have y: "shape3 B S H (block_pure b pk pv x)"
      by (rule block_pure_shape[OF wfb Cons.prems(2)])
    have bad: "\<not> list_all (wf_kv B H) (take (length bs) (drop (Suc i) ps))"
      using Cons.prems(7) True d by simp
    have IH: "layers_loop bs (Suc i) (block_pure b pk pv x) (Some ps) True (acc @ [block_kv b (ps ! i) x])
              = Inl RuntimeError"
      using Cons.prems(5) by (intro Cons.IH[OF wfbs y Cons.prems(3,4) _ rest bad]) simp
    show ?thesis using i blk IH by (simp add: pi)
  qed
qed

text \<open>
  Claim C9, amended. A call with \<open>use_cache\<close> gets \<open>B \<ge> 1\<close> sequences of \<open>S \<ge> 1\<close>
  token ids and one cache entry per layer, every entry a pair of keys and values that
  are tensors of one shape, with one past position at least. When the position table has no room for \<open>S\<close> tokens
  after the past length of layer 0's entry, the call fails with \<^verbatim>\<open>IndexError\<close>.
  Otherwise, when the batch size or the hidden size of some entry is not that of the
  input, as it is for one entry at least when these sizes differ from layer to layer,
  the call fails with the \<^verbatim>\<open>RuntimeError\<close> of \<^verbatim>\<open>torch.cat\<close>. Past lengths that differ
  from layer to layer are not detected: when every entry has the batch size and the
  hidden size of the input, the call succeeds, and layer \<open>l\<close> returns an entry \<open>S\<close>
  positions longer than the one it was given.
\<close>

theorem cache_dimension_checks:
  assumes "wf_Transformer H m" and "1 \<le> B" and "1 \<le> S"
    and "ids_ok (length (token_embed m)) B S input_ids"
    and "length past_kvs = length (hidden_layers m)"
    and "list_all (\<lambda>p. 1 \<le> size1 (fst p) \<and> (\<exists>B' H'. wf_kv B' H' p)) past_kvs"
  shows "(length (position_embed m) < past_len (Some past_kvs) + S \<longrightarrow>
            Transformer_forward m input_ids (Some past_kvs) True = Inl IndexError) \<and>
         (past_len (Some past_kvs) + S \<le> length (position_embed m) \<and>
          \<not> list_all (wf_kv B H) past_kvs \<longrightarrow>
            Transformer_forward m input_ids (Some past_kvs) True = Inl RuntimeError) \<and>
         (past_len (Some past_kvs) + S \<le> length (position_embed m) \<and>
          list_all (wf_kv B H) past_kvs \<longrightarrow>
            (\<exists>logits new_kvs.
               Transformer_forward m input_ids (Some past_kvs) True = Inr (logits, Some new_kvs) \<and>
               shape3 B S (length (token_embed m)) logits \<and>
               list_all (wf_kv B H) new_kvs \<and>
               map (\<lambda>p. size1 (fst p)) new_kvs = map (\<lambda>p. size1 (fst p) + S) past_kvs))"
proof (intro conjI impI)
  assume "length (position_embed m) < past_len (Some past_kvs) + S"
  then show "Transformer_forward m input_ids (Some past_kvs) True = Inl IndexError"
    by (rule forward_overflow[OF assms(4,2,3)])
next
  assume a: "past_len (Some past_kvs) + S \<le> length (position_embed m) \<and>
             \<not> list_all (wf_kv B H) past_kvs"
  let ?x = "embed_pure m (past_len (Some past_kvs)) input_ids"
  have L: "past_len (Some past_kvs) + S \<le> length (position_embed m)" using a by simp
  have bsw: "list_all (wf_DecoderBlock H) (hidden_layers m)"
    using assms(1) by (simp add: wf_Transformer_def)
  have x: "shape3 B S H ?x" by (rule embed_pure_shape[OF assms(1,4) L])
  have t: "list_all (\<lambda>p. \<exists>B' H'. wf_kv B' H' p) past_kvs"
    using assms(6) by (simp add: list_all_iff)
  have "layers_loop (hidden_layers m) 0 ?x (Some past_kvs) True [] = Inl RuntimeError"
    using a assms(5) t by (intro layers_loop_mismatch[OF bsw x assms(2,3)]) simp_all
  then show "Transformer_forward m input_ids (Some past_kvs) True = Inl RuntimeError"
    unfolding Transformer_forward_def Let_def
    by (simp add: embed_model[OF assms(4,2) L])
next
  assume a: "past_len (Some past_kvs) + S \<le> length (position_embed m) \<and>
             list_all (wf_kv B H) past_kvs"
  let ?x = "embed_pure m (past_len (Some past_kvs)) input_ids"
  have L: "past_len (Some past_kvs) + S \<le> length (position_embed m)"
    and ok: "list_all (wf_kv B H) past_kvs" using a by simp_all
  have bsw: "list_all (wf_DecoderBlock H) (hidden_layers m)"
    using assms(1) by (simp add: wf_Transformer_def)
  have x: "shape3 B S H ?x" by (rule embed_pure_shape[OF assms(1,4) L])
  have fw: "Transformer_forward m input_ids (Some past_kvs) True =
      Inr (head_pure m (layers_out (hidden_layers m) ?x past_kvs),
           Some (layers_kvs (hidden_layers m) ?x past_kvs))"
    using forward_Some[OF assms(1,4,2,3) L _ ok] assms(5) by simp
  have "shape3 B S (length (token_embed m)) (head_pure m (layers_out (hidden_layers m) ?x past_kvs))"
    by (rule head_pure_shape[OF assms(1) layers_out_shape[OF bsw x]])
  moreover have "list_all (wf_kv B H) (layers_kvs (hidden_layers m) ?x past_kvs)"
    by (rule layers_kvs_wf[OF bsw x assms(2) ok])
  moreover have "map (\<lambda>p. size1 (fst p)) (layers_kvs (hidden_layers m) ?x past_kvs)
                 = map (\<lambda>p. size1 (fst p) + S) past_kvs"
    using layers_kvs_size1[OF bsw x assms(2) ok] assms(5) by simp
  ultimately show "\<exists>logits new_kvs.
               Transformer_forward m input_ids (Some past_kvs) True = Inr (logits, Some new_kvs) \<and>
               shape3 B S (length (token_embed m)) logits \<and>
               list_all (wf_kv B H) new_kvs \<and>
               map (\<lambda>p. size1 (fst p)) new_kvs = map (\<lambda>p. size1 (fst p) + S) past_kvs"
    using fw by simp
qed

lemma ragged_cache_wf: "list_all (wf_kv 1 2) ragged_cache"
  by (simp add: ragged_cache_def wf_kv_def size1_def shape3_def)

lemma ragged_cache_lengths: "map (\<lambda>p. size1 (fst p)) ragged_cache = [1, 2]"
  by (simp add: ragged_cache_def size1_def)

lemma ragged_cache_tensors:
  "list_all (\<lambda>p. 1 \<le> size1 (fst p) \<and> (\<exists>B' H'. wf_kv B' H' p)) ragged_cache"
proof -
  have "list_all (\<lambda>p. 1 \<le> size1 (fst p)) ragged_cache"
    by (simp add: ragged_cache_def size1_def)
  then show ?thesis using ragged_cache_wf unfolding list_all_iff by blast
qed

lemma narrow_cache_tensors:
  "list_all (\<lambda>p. 1 \<le> size1 (fst p) \<and> (\<exists>B' H'. wf_kv B' H' p)) narrow_cache"
proof -
  have "wf_kv 1 2 ([[[0, 0]]], [[[0, 0]]])" "wf_kv 1 1 ([[[0]]], [[[0]]])"
    by (simp_all add: wf_kv_def size1_def shape3_def)
  then show ?thesis unfolding narrow_cache_def by (auto simp: size1_def)
qed

lemma narrow_cache_mismatch: "\<not> list_all (wf_kv 1 2) narrow_cache"
  by (simp add: narrow_cache_def wf_kv_def size1_def shape3_def)

text \<open>
  The theorem at \<open>ex_model\<close>: \<open>ragged_cache\<close> is accepted, \<open>narrow_cache\<close> is refused, and
  three new tokens after \<open>ragged_cache\<close> do not fit the three positions.
\<close>

theorem cache_dimension_checks_witness:
  "wf_Transformer 2 ex_model \<and> (1::nat) \<le> 1 \<and>
   ids_ok (length (token_embed ex_model)) 1 1 [[0]] \<and>
   length ragged_cache = length (hidden_layers ex_model) \<and>
   list_all (\<lambda>p. 1 \<le> size1 (fst p) \<and> (\<exists>B' H'. wf_kv B' H' p)) ragged_cache \<and>
   past_len (Some ragged_cache) + 1 \<le> length (position_embed ex_model) \<and>
   list_all (wf_kv 1 2) ragged_cache \<and>
   (\<exists>logits new_kvs.
      Transformer_forward ex_model [[0]] (Some ragged_cache) True = Inr (logits, Some new_kvs) \<and>
      shape3 1 1 (length (token_embed ex_model)) logits \<and>
      list_all (wf_kv 1 2) new_kvs \<and>
      map (\<lambda>p. size1 (fst p)) new_kvs = map (\<lambda>p. size1 (fst p) + 1) ragged_cache) \<and>
   length narrow_cache = length (hidden_layers ex_model) \<and>
   list_all (\<lambda>p. 1 \<le> size1 (fst p) \<and> (\<exists>B' H'. wf_kv B' H' p)) narrow_cache \<and>
   past_len (Some narrow_cache) + 1 \<le> length (position_embed ex_model) \<and>
   \<not> list_all (wf_kv 1 2) narrow_cache \<and>
   Transformer_forward ex_model [[0]] (Some narrow_cache) True = Inl RuntimeError \<and>
   length (position_embed ex_model) < past_len (Some ragged_cache) + 3 \<and>
   ids_ok (length (token_embed ex_model)) 1 3 [[0, 0, 0]] \<and>
   Transformer_forward ex_model [[0, 0, 0]] (Some ragged_cache) True = Inl IndexError"
proof -
  have w: "wf_Transformer 2 ex_model" by (rule ex_model_wf)
  have l: "(1::nat) \<le> 1" by simp
  have l3: "(1::nat) \<le> 3" by simp
  have ids: "ids_ok (length (token_embed ex_model)) 1 1 [[0]]"
    by (simp add: ex_model_sizes ids_ok_def)
  have ids3: "ids_ok (length (token_embed ex_model)) 1 3 [[0, 0, 0]]"
    by (simp add: ex_model_sizes ids_ok_def)
  have n: "length ragged_cache = length (hidden_layers ex_model)"
    by (simp add: ragged_cache_def ex_model_def)
  have n': "length narrow_cache = length (hidden_layers ex_model)"
    by (simp add: narrow_cache_def ex_model_def)
  have L: "past_len (Some ragged_cache) + 1 \<le> length (position_embed ex_model)"
    by (simp add: ragged_cache_def ex_model_def past_len_def size1_def)
  have L': "past_len (Some narrow_cache) + 1 \<le> length (position_embed ex_model)"
    by (simp add: narrow_cache_def ex_model_def past_len_def size1_def)
  have L3: "length (position_embed ex_model) < past_len (Some ragged_cache) + 3"
    by (simp add: ragged_cache_def ex_model_def past_len_def size1_def)
  note a = cache_dimension_checks[OF w l l ids n ragged_cache_tensors]
  note b = cache_dimension_checks[OF w l l ids n' narrow_cache_tensors]
  note c = cache_dimension_checks[OF w l l3 ids3 n ragged_cache_tensors]
  show ?thesis
    using w l ids ids3 n n' L L' L3 ragged_cache_tensors narrow_cache_tensors ragged_cache_wf
      narrow_cache_mismatch a b c
    by blast
qed

text \<open>
  Claim C9 as stated fails: with past lengths 1 and 2 in the two layers of \<open>ex_model\<close>
  the forward pass raises none of the errors.
\<close>

theorem inconsistent_cache_counterexample:
  "map (\<lambda>p. size1 (fst p)) ragged_cache = [1, 2] \<and>
   Transformer_forward ex_model [[0]] (Some ragged_cache) True \<noteq> Inl AssertionError \<and>
   Transformer_forward ex_model [[0]] (Some ragged_cache) True \<noteq> Inl RuntimeError \<and>
   Transformer_forward ex_model [[0]] (Some ragged_cache) True \<noteq> Inl IndexError"
proof -
  have ids: "ids_ok (length (token_embed ex_model)) 1 1 [[0]]"
    by (simp add: ids_ok_def ex_model_sizes)
  have L: "past_len (Some ragged_cache) + 1 \<le> length (position_embed ex_model)"
    by (simp add: ragged_cache_def ex_model_def past_len_def size1_def)
  have n: "length (hidden_layers ex_model) \<le> length ragged_cache"
    by (simp add: ragged_cache_def ex_model_def)
  have "\<exists>r. Transformer_forward ex_model [[0]] (Some ragged_cache) True = Inr r"
    using forward_Some[OF ex_model_wf ids _ _ L n ragged_cache_wf] by simp
  then show ?thesis using ragged_cache_lengths by auto
qed

section \<open>The cache is extended, never rewritten\<close>

lemma cat_dim1_Inr:
  assumes "cat_dim1 a b = Inr c"
  shows "c = map2 (@) a b" "length a = length b"
  using assms by (simp_all add: cat_dim1_def split: if_splits)

text \<open>
  Claim C10. When the attention succeeds on a supplied cache entry \<open>(past_k, past_v)\<close>,
  the returned keys and values have, for every batch element, the old keys and values
  unchanged as their first positions, followed by as many positions as there are new
  rows.
\<close>

theorem cache_prefix_preserved:
  assumes "SingleHeadSelfAttention_forward a x (Some (past_k, past_v)) = Inr (out, (k, v))"
  shows "length k = length past_k \<and> length v = length past_v \<and>
         (\<forall>b<length past_k.
            take (length (past_k ! b)) (k ! b) = past_k ! b \<and>
            length (k ! b) = length (past_k ! b) + length (x ! b)) \<and>
         (\<forall>b<length past_v.
            take (length (past_v ! b)) (v ! b) = past_v ! b \<and>
            length (v ! b) = length (past_v ! b) + length (x ! b))"
proof -
  let ?k = "map (map (krow a)) x" and ?v = "map (map (vrow a)) x"
  from assms obtain k' v' where ck: "cat_dim1 past_k ?k = Inr k'" and cv: "cat_dim1 past_v ?v = Inr v'"
    and kv: "k = k'" "v = v'"
    unfolding SingleHeadSelfAttention_forward_def Let_def attn_qkv
    by (auto split: if_splits sum.splits)
  note k = cat_dim1_Inr[OF ck] and v = cat_dim1_Inr[OF cv]
  show ?thesis
    using k v by (simp add: kv)
qed

text \<open>The theorem at the attention of \<open>ex_model\<close>, one cached position and one new row.\<close>

theorem cache_prefix_preserved_witness:
  "SingleHeadSelfAttention_forward ex_attn [[[1, 0]]] (Some ([[[0, 1]]], [[[0, 1]]])) =
     Inr (attn_pure ex_attn [[[0, 1]]] [[[0, 1]]] [[[1, 0]]],
          ([[[0, 1], [1, 0]]], [[[0, 1], [1, 0]]])) \<and>
   take (length ([[[0, 1]]] ! 0)) ([[[0, 1], [1, 0 :: real]]] ! 0) = [[[0, 1]]] ! 0 \<and>
   length ([[[0, 1], [1, 0 :: real]]] ! 0) = length ([[[0, 1 :: real]]] ! 0) + length ([[[1, 0 :: real]]] ! 0)"
proof -
  have a: "wf_attn 2 ex_attn" by (simp add: wf_attn_def ex_attn_def wf_Linear_def)
  have x: "shape3 1 1 2 [[[1, 0]]]" and p: "shape3 1 1 2 [[[0, 1]]]" by (simp_all add: shape3_def)
  have "SingleHeadSelfAttention_forward ex_attn [[[1, 0]]] (Some ([[[0, 1]]], [[[0, 1]]])) =
     Inr (attn_pure ex_attn [[[0, 1]]] [[[0, 1]]] [[[1, 0]]],
          (map2 (@) [[[0, 1]]] (map (map (krow ex_attn)) [[[1, 0]]]),
           map2 (@) [[[0, 1]]] (map (map (vrow ex_attn)) [[[1, 0]]])))"
    by (rule attention_Some[OF a x order_refl p p])
  then have fw: "SingleHeadSelfAttention_forward ex_attn [[[1, 0]]] (Some ([[[0, 1]]], [[[0, 1]]])) =
     Inr (attn_pure ex_attn [[[0, 1]]] [[[0, 1]]] [[[1, 0]]],
          ([[[0, 1], [1, 0]]], [[[0, 1], [1, 0]]]))"
    by (simp add: krow_def vrow_def ex_attn_def Linear_row_def dot_def)
  show ?thesis
    using fw cache_prefix_preserved[OF fw] by simp
qed

section \<open>Position ids\<close>

lemma upt_shift: "[c..<c + n] = map (\<lambda>j. c + j) [0..<n]"
  using map_add_upt[of c n] by (simp add: add.commute)

text \<open>
  Claim C6, amended. For an input of \<open>T = size1 input_ids\<close> token ids the position ids are
  \<open>[cache_length, ..., cache_length + T - 1]\<close>, where \<open>cache_length\<close> is 0 when no cache is
  supplied or the supplied cache is the empty list, and otherwise the total length that
  the entries of the supplied cache share.
\<close>

theorem position_ids_from_cache_length:
  assumes "(past_kvs = None \<or> past_kvs = Some []) \<and> cache_length = 0 \<or>
           (\<exists>kvs. past_kvs = Some kvs \<and> kvs \<noteq> [] \<and>
                  list_all (\<lambda>p. total_length p = cache_length) kvs)"
  shows "position_ids input_ids past_kvs =
           [map (\<lambda>j. cache_length + j) [0..<size1 input_ids]]"
  using assms
proof
  assume "(past_kvs = None \<or> past_kvs = Some []) \<and> cache_length = 0"
  then show ?thesis by (auto simp: position_ids_def past_len_def)
next
  assume "\<exists>kvs. past_kvs = Some kvs \<and> kvs \<noteq> [] \<and>
                 list_all (\<lambda>p. total_length p = cache_length) kvs"
  then obtain p ps where "past_kvs = Some (p # ps)" "total_length p = cache_length"
    by (auto simp: neq_Nil_conv)
  then show ?thesis
    using upt_shift[of cache_length "size1 input_ids"]
    by (simp add: position_ids_def past_len_def total_length_def)
qed

text \<open>
  The theorem at a cache of one entry with two positions and three new tokens, and at
  the empty cache.
\<close>

theorem position_ids_from_cache_length_witness:
  "((Some [([[[0, 0], [0, 0]]], [[[0, 0], [0, 0]]])] = (None :: kv list option) \<or>
     Some [([[[0, 0], [0, 0]]], [[[0, 0], [0, 0]]])] = Some []) \<and> (2::nat) = 0 \<or>
    (\<exists>kvs. Some [([[[0, 0], [0, 0]]], [[[0, 0], [0, 0]]])] = Some kvs \<and> kvs \<noteq> [] \<and>
           list_all (\<lambda>p. total_length p = 2) kvs)) \<and>
   position_ids [[7, 8, 9]] (Some [([[[0, 0], [0, 0]]], [[[0, 0], [0, 0]]])]) = [[2, 3, 4]] \<and>
   (((Some [] :: kv list option) = None \<or> (Some [] :: kv list option) = Some []) \<and> (0::nat) = 0 \<or>
    (\<exists>kvs. Some [] = Some kvs \<and> kvs \<noteq> [] \<and> list_all (\<lambda>p. total_length p = 0) kvs)) \<and>
   position_ids [[7, 8, 9]] (Some []) = [[0, 1, 2]]"
proof -
  have h: "(Some [([[[0, 0], [0, 0]]], [[[0, 0], [0, 0]]])] = (None :: kv list option) \<or>
     Some [([[[0, 0], [0, 0]]], [[[0, 0], [0, 0]]])] = Some []) \<and> (2::nat) = 0 \<or>
    (\<exists>kvs. Some [([[[0, 0], [0, 0]]], [[[0, 0], [0, 0]]])] = Some kvs \<and> kvs \<noteq> [] \<and>
           list_all (\<lambda>p. total_length p = 2) kvs)"
    by (simp add: total_length_def size1_def)
  have e: "((Some [] :: kv list option) = None \<or> (Some [] :: kv list option) = Some []) \<and> (0::nat) = 0 \<or>
    (\<exists>kvs. Some [] = Some kvs \<and> kvs \<noteq> [] \<and> list_all (\<lambda>p. total_length p = 0) kvs)"
    by simp
  have 1: "[map (\<lambda>j. 2 + j) [0..<size1 [[7, 8, 9::nat]]]] = [[2, 3, 4::nat]]"
    by (simp add: size1_def upt_conv_Cons)
  have 2: "[map (\<lambda>j. 0 + j) [0..<size1 [[7, 8, 9::nat]]]] = [[0, 1, 2::nat]]"
    by (simp add: size1_def upt_conv_Cons)
  have a: "position_ids [[7, 8, 9]] (Some [([[[0, 0], [0, 0]]], [[[0, 0], [0, 0]]])]) = [[2, 3, 4]]"
    using position_ids_from_cache_length[OF h, of "[[7, 8, 9]]"] 1 by simp
  have b: "position_ids [[7, 8, 9]] (Some []) = [[0, 1, 2]]"
    using position_ids_from_cache_length[OF e, of "[[7, 8, 9]]"] 2 by simp
  show ?thesis using h e a b by blast
qed

text \<open>
  Claim C6 as stated fails for a model with no decoder block. After one token has been
  processed with \<open>use_cache\<close> the returned cache is the empty list, which holds no length;
  for the next token the claim gives position 1, the prior total length, and the code
  gives position 0.
\<close>

theorem empty_cache_position_counterexample:
  "Transformer_forward zero_layer_model [[0]] None True =
     Inr ([[[1 / sqrt (100001 / 100000), - 1 / sqrt (100001 / 100000)]]], Some []) \<and>
   position_ids [[0]] (Some []) = [[0]] \<and>
   position_ids [[0]] (Some []) \<noteq> [[1]]"
  by (simp add: zero_layer_step(1) position_ids_def past_len_def size1_def)

section \<open>The decoder layer\<close>

lemma norm_row_nth:
  assumes "wf_LayerNorm H n" "length r = H" "i < H"
  shows "norm_row n r ! i = (r ! i - mean r) / (std r + eps n) * gamma n ! i + beta n ! i"
  using assms by (simp add: norm_row_def wf_LayerNorm_def)

lemma norm_rows_nth:
  assumes "wf_LayerNorm H n" "shape3 B S H x" "k < B" "s < S" "i < H"
  shows "norm_rows n x ! k ! s ! i =
           (x ! k ! s ! i - mean (x ! k ! s)) / (std (x ! k ! s) + eps n) * gamma n ! i + beta n ! i"
proof -
  have "length (x ! k) = S" "length (x ! k ! s) = H"
    using assms by (auto simp: shape3_nth)
  then show ?thesis
    using assms by (simp add: norm_rows_def shape3_nth norm_row_nth)
qed

lemma tensor_add_nth:
  assumes "shape3 B S H x" "shape3 B S H y" "k < B" "s < S" "i < H"
  shows "tensor_add x y ! k ! s ! i = x ! k ! s ! i + y ! k ! s ! i"
proof -
  have "length (x ! k) = S" "length (x ! k ! s) = H" "length (y ! k) = S" "length (y ! k ! s) = H"
    using assms by (auto simp: shape3_nth)
  then show ?thesis
    using assms by (simp add: tensor_add_def shape3_nth)
qed

lemma MLP_forward_shape:
  assumes "wf_MLP H p" "shape3 B S H x"
  shows "shape3 B S H (MLP_forward p x)"
  using assms by (auto simp: shape3_nth MLP_forward_rows mlp_row_length)

text \<open>
  Claim C5. Take a block with well-formed parameters, an input \<open>x\<close> of shape
  \<open>(B, S, H)\<close> with \<open>S \<ge> 1\<close>, and either a call with \<open>use_cache\<close> and a cache entry
  \<open>(pk, pv)\<close> of shape \<open>(B, P, H)\<close>, or a call that gives the attention no cache
  (\<open>use_cache\<close> false, or no entry supplied), where \<open>pk\<close> and \<open>pv\<close> are empty. Then
  \<^verbatim>\<open>DecoderBlock.forward\<close> succeeds, and there are the tensors of the contract, all of
  shape \<open>(B, S, H)\<close>: \<open>x'\<close> is the normalisation of \<open>x\<close> by \<open>ln_1\<close>, entry by entry
  \<open>(x - mean) / (std + eps) * gamma + beta\<close>; \<open>a\<close> is what the attention returns on
  \<open>x'\<close> and the cache, for every batch element the causal attention of the rows of
  \<open>x'\<close> after the cached keys and values; \<open>x''\<close> is \<open>x' + a\<close>, the sum of real
  numbers entry by entry, with the normalised \<open>x'\<close> and not with \<open>x\<close>; \<open>x'''\<close> is the
  normalisation of \<open>x''\<close> by \<open>ln_2\<close>; \<open>ff\<close> is the feed-forward network on \<open>x'''\<close>,
  row by row; and the output is \<open>x''' + ff\<close>.
\<close>

theorem decoder_block_contract:
  assumes wf: "wf_DecoderBlock H b" and S: "1 \<le> S" and x: "shape3 B S H x"
    and cache: "use_cache \<and> past_kv = Some (pk, pv) \<and> shape3 B P H pk \<and> shape3 B P H pv \<or>
                (use_cache \<and> past_kv = None \<or> \<not> use_cache) \<and> pk = empty_cache B \<and> pv = empty_cache B"
  shows "\<exists>x' a x'' x''' ff out new_kv.
           LayerNorm_forward (ln_1 b) x = Inr x' \<and>
           SingleHeadSelfAttention_forward (attn b) x' (if use_cache then past_kv else None)
             = Inr (a, new_kv) \<and>
           LayerNorm_forward (ln_2 b) x'' = Inr x''' \<and>
           MLP_forward (mlp b) x''' = ff \<and>
           DecoderBlock_forward b x past_kv use_cache = Inr (out, new_kv) \<and>
           shape3 B S H x' \<and> shape3 B S H a \<and> shape3 B S H x'' \<and> shape3 B S H x''' \<and>
           shape3 B S H ff \<and> shape3 B S H out \<and>
           (\<forall>k<B. \<forall>s<S. \<forall>i<H.
              x' ! k ! s ! i =
                (x ! k ! s ! i - mean (x ! k ! s)) / (std (x ! k ! s) + eps (ln_1 b))
                  * gamma (ln_1 b) ! i + beta (ln_1 b) ! i \<and>
              x'' ! k ! s ! i = x' ! k ! s ! i + a ! k ! s ! i \<and>
              x''' ! k ! s ! i =
                (x'' ! k ! s ! i - mean (x'' ! k ! s)) / (std (x'' ! k ! s) + eps (ln_2 b))
                  * gamma (ln_2 b) ! i + beta (ln_2 b) ! i \<and>
              out ! k ! s ! i = x''' ! k ! s ! i + ff ! k ! s ! i) \<and>
           (\<forall>k<B. a ! k = attn_sample (attn b) (pk ! k) (pv ! k) (x' ! k)) \<and>
           (\<forall>k<B. \<forall>s<S.
              ff ! k ! s =
                Linear_row (mlp_c_proj (mlp b))
                  (map (act (mlp b)) (Linear_row (c_fc (mlp b)) (x''' ! k ! s))))"
proof -
  let ?x1 = "norm_rows (ln_1 b) x"
  let ?a = "attn_pure (attn b) pk pv ?x1"
  let ?x2 = "tensor_add ?x1 ?a"
  let ?x3 = "norm_rows (ln_2 b) ?x2"
  let ?ff = "MLP_forward (mlp b) ?x3"
  let ?out = "tensor_add ?x3 ?ff"
  let ?kv = "(map2 (@) pk (map (map (krow (attn b))) ?x1), map2 (@) pv (map (map (vrow (attn b))) ?x1))"
  have w1: "wf_LayerNorm H (ln_1 b)" and w2: "wf_LayerNorm H (ln_2 b)"
    and wa: "wf_attn H (attn b)" and wm: "wf_MLP H (mlp b)"
    using wf by (simp_all add: wf_DecoderBlock_def)
  have x1: "shape3 B S H ?x1" by (rule norm_rows_shape[OF w1 x])
  have n1: "LayerNorm_forward (ln_1 b) x = Inr ?x1" by (rule LayerNorm_forward_Inr[OF w1 x])
  have att: "SingleHeadSelfAttention_forward (attn b) ?x1 (if use_cache then past_kv else None)
             = Inr (?a, ?kv)"
    using cache
  proof
    assume c: "use_cache \<and> past_kv = Some (pk, pv) \<and> shape3 B P H pk \<and> shape3 B P H pv"
    then show ?thesis using attention_Some[OF wa x1 S, of P pk pv] by simp
  next
    assume c: "(use_cache \<and> past_kv = None \<or> \<not> use_cache) \<and> pk = empty_cache B \<and> pv = empty_cache B"
    have "SingleHeadSelfAttention_forward (attn b) ?x1 None = Inr (?a, ?kv)"
      using attention_None[OF wa x1 S] attention_Some[OF wa x1 S shape3_empty shape3_empty] c
      by simp
    then show ?thesis using c by auto
  qed
  have a: "shape3 B S H ?a"
    using x1 by (intro attn_pure_shape[OF wa]) (simp_all add: shape3_nth)
  have x2: "shape3 B S H ?x2" by (rule tensor_add_shape[OF x1 a])
  have n2: "LayerNorm_forward (ln_2 b) ?x2 = Inr ?x3" by (rule LayerNorm_forward_Inr[OF w2 x2])
  have x3: "shape3 B S H ?x3" by (rule norm_rows_shape[OF w2 x2])
  have ff: "shape3 B S H ?ff" by (rule MLP_forward_shape[OF wm x3])
  have out: "shape3 B S H ?out" by (rule tensor_add_shape[OF x3 ff])
  have fw: "DecoderBlock_forward b x past_kv use_cache = Inr (?out, ?kv)"
  proof (cases use_cache)
    case True
    then show ?thesis using att unfolding DecoderBlock_forward_def by (simp add: n1 n2)
  next
    case False
    then show ?thesis using att unfolding DecoderBlock_forward_def by (simp add: n1 n2)
  qed
  have el: "\<forall>k<B. \<forall>s<S. \<forall>i<H.
              ?x1 ! k ! s ! i =
                (x ! k ! s ! i - mean (x ! k ! s)) / (std (x ! k ! s) + eps (ln_1 b))
                  * gamma (ln_1 b) ! i + beta (ln_1 b) ! i \<and>
              ?x2 ! k ! s ! i = ?x1 ! k ! s ! i + ?a ! k ! s ! i \<and>
              ?x3 ! k ! s ! i =
                (?x2 ! k ! s ! i - mean (?x2 ! k ! s)) / (std (?x2 ! k ! s) + eps (ln_2 b))
                  * gamma (ln_2 b) ! i + beta (ln_2 b) ! i \<and>
              ?out ! k ! s ! i = ?x3 ! k ! s ! i + ?ff ! k ! s ! i"
    using norm_rows_nth[OF w1 x] tensor_add_nth[OF x1 a] norm_rows_nth[OF w2 x2]
      tensor_add_nth[OF x3 ff]
    by blast
  have lx: "length x = B" using x by (simp add: shape3_nth)
  have at: "\<forall>k<B. ?a ! k = attn_sample (attn b) (pk ! k) (pv ! k) (?x1 ! k)"
    using lx by (simp add: attn_pure_def norm_rows_def)
  have fr: "\<forall>k<B. \<forall>s<S.
              ?ff ! k ! s =
                Linear_row (mlp_c_proj (mlp b))
                  (map (act (mlp b)) (Linear_row (c_fc (mlp b)) (?x3 ! k ! s)))"
    using x3 by (simp add: MLP_forward_rows mlp_row_def shape3_nth)
  show ?thesis
    using n1 att n2 fw x1 a x2 x3 ff out el at fr by blast
qed

text \<open>
  The theorem at the block of \<open>ex_model\<close>, one new row and a cache entry of one
  position.
\<close>

theorem decoder_block_contract_witness:
  "wf_DecoderBlock 2 ex_block \<and> (1::nat) \<le> 1 \<and> shape3 1 1 2 [[[1, 0]]] \<and>
   shape3 1 1 2 [[[0, 1]]] \<and>
   (\<exists>x' a x'' x''' ff out new_kv.
      LayerNorm_forward (ln_1 ex_block) [[[1, 0]]] = Inr x' \<and>
      SingleHeadSelfAttention_forward (attn ex_block) x'
          (if True then Some ([[[0, 1]]], [[[0, 1]]]) else None)
        = Inr (a, new_kv) \<and>
      LayerNorm_forward (ln_2 ex_block) x'' = Inr x''' \<and>
      MLP_forward (mlp ex_block) x''' = ff \<and>
      DecoderBlock_forward ex_block [[[1, 0]]] (Some ([[[0, 1]]], [[[0, 1]]])) True
        = Inr (out, new_kv) \<and>
      shape3 1 1 2 x' \<and> shape3 1 1 2 a \<and> shape3 1 1 2 x'' \<and> shape3 1 1 2 x''' \<and>
      shape3 1 1 2 ff \<and> shape3 1 1 2 out \<and>
      (\<forall>k<1. \<forall>s<1. \<forall>i<2.
         x' ! k ! s ! i =
           ([[[1, 0]]] ! k ! s ! i - mean ([[[1, 0]]] ! k ! s))
             / (std ([[[1, 0]]] ! k ! s) + eps (ln_1 ex_block))
             * gamma (ln_1 ex_block) ! i + beta (ln_1 ex_block) ! i \<and>
         x'' ! k ! s ! i = x' ! k ! s ! i + a ! k ! s ! i \<and>
         x''' ! k ! s ! i =
           (x'' ! k ! s ! i - mean (x'' ! k ! s)) / (std (x'' ! k ! s) + eps (ln_2 ex_block))
             * gamma (ln_2 ex_block) ! i + beta (ln_2 ex_block) ! i \<and>
         out ! k ! s ! i = x''' ! k ! s ! i + ff ! k ! s ! i) \<and>
      (\<forall>k<1. a ! k = attn_sample (attn ex_block) ([[[0, 1]]] ! k) ([[[0, 1]]] ! k) (x' ! k)) \<and>
      (\<forall>k<1. \<forall>s<1.
         ff ! k ! s =
           Linear_row (mlp_c_proj (mlp ex_block))
             (map (act (mlp ex_block)) (Linear_row (c_fc (mlp ex_block)) (x''' ! k ! s)))))"
proof -
  have w: "wf_DecoderBlock 2 ex_block" by (rule ex_block_wf)
  have x: "shape3 1 1 2 [[[1, 0]]]" and p: "shape3 1 1 2 [[[0, 1]]]"
    by (simp_all add: shape3_def)
  have c: "True \<and> Some ([[[0, 1]]], [[[0, 1]]]) = Some ([[[0, 1]]], [[[0, 1::real]]]) \<and>
           shape3 1 1 2 [[[0, 1]]] \<and> shape3 1 1 2 [[[0, 1]]] \<or>
           (True \<and> Some ([[[0, 1]]], [[[0, 1::real]]]) = None \<or> \<not> True) \<and>
           [[[0, 1]]] = empty_cache 1 \<and> [[[0, 1]]] = empty_cache 1"
    using p by simp
  have l: "(1::nat) \<le> 1" by simp
  show ?thesis
    using w l x p decoder_block_contract[OF w l x c] by blast
qed

section \<open>The final normalisation\<close>

text \<open>
  Claim C3. The two normalisations of a decoder block are the notebook's \<^verbatim>\<open>LayerNorm\<close>,
  which computes \<open>(x - mean) / (std + eps) * gamma + beta\<close>; the final one,
  \<^verbatim>\<open>self.ln_f = nn.LayerNorm(hidden_size)\<close>, is PyTorch's, which computes
  \<open>(x - mean) / sqrt (var + eps) * weight + bias\<close> with the biased variance. On the row
  \<open>[0, 0, 0, 4]\<close> with unit scale, zero shift and \<open>eps = 1e-5\<close> the two differ, and
  the logits of \<open>norm_probe_model\<close>, whose only token embeds to that row, show the value
  of \<^verbatim>\<open>nn.LayerNorm\<close>.
\<close>

theorem final_norm_is_not_LayerNorm:
  "LayerNorm_row \<lparr>gamma = [1, 1, 1, 1], beta = [0, 0, 0, 0], eps = 1 / 100000\<rparr> [0, 0, 0, 4]
     = Inr [- 1 / (2 + 1 / 100000), - 1 / (2 + 1 / 100000), - 1 / (2 + 1 / 100000), 3 / (2 + 1 / 100000)] \<and>
   nn_LayerNorm_row (ln_f norm_probe_model) [0, 0, 0, 4]
     = [- 1 / sqrt (3 + 1 / 100000), - 1 / sqrt (3 + 1 / 100000), - 1 / sqrt (3 + 1 / 100000),
        3 / sqrt (3 + 1 / 100000)] \<and>
   Transformer_forward norm_probe_model [[0]] None False
     = Inr ([[[3 / sqrt (3 + 1 / 100000)]]], None) \<and>
   3 / sqrt (3 + 1 / 100000) \<noteq> 3 / (2 + 1 / (100000::real))"
proof -
  have m: "mean [0, 0, 0, 4] = 1" by (simp add: mean_def)
  have s: "std [0, 0, 0, 4] = 2"
  proof -
    have "std [0, 0, 0, 4] = sqrt 4" by (simp add: std_def m)
    then show ?thesis by simp
  qed
  have v: "var_biased [0, 0, 0, 4] = 3" by (simp add: var_biased_def m)
  have a: "LayerNorm_row \<lparr>gamma = [1, 1, 1, 1], beta = [0, 0, 0, 0], eps = 1 / 100000\<rparr> [0, 0, 0, 4]
     = Inr [- 1 / (2 + 1 / 100000), - 1 / (2 + 1 / 100000), - 1 / (2 + 1 / 100000), 3 / (2 + 1 / 100000)]"
    by (simp add: LayerNorm_row_def broadcast2_def m s)
  have b: "nn_LayerNorm_row (ln_f norm_probe_model) [0, 0, 0, 4]
     = [- 1 / sqrt (3 + 1 / 100000), - 1 / sqrt (3 + 1 / 100000), - 1 / sqrt (3 + 1 / 100000),
        3 / sqrt (3 + 1 / 100000)]"
    by (simp add: nn_LayerNorm_row_def m v norm_probe_model_def)
  have x: "map2 (+) [0, 0, 0, 4] [0, 0, 0, 0] = [0, 0, 0, 4 :: real]" by simp
  have f: "Transformer_forward norm_probe_model [[0]] None False
     = Inr ([[[3 / sqrt (3 + 1 / 100000)]]], None)"
    using b
    by (simp add: Transformer_forward_def Embedding_forward_def position_ids_def past_len_def
        size1_def add_broadcast_def dropout_def nn_LayerNorm_forward_def Linear_forward_def
        Linear_row_def dot_def upt_conv_Cons Let_def norm_probe_model_def)
  have "sqrt (3 + 1 / 100000) < sqrt 4" by (rule real_sqrt_less_mono) simp
  then have "sqrt (3 + 1 / 100000) < 2 + 1 / (100000::real)" by simp
  then have c: "3 / sqrt (3 + 1 / 100000) \<noteq> 3 / (2 + 1 / (100000::real))"
    by (simp add: field_simps)
  show ?thesis using a b f c by blast
qed

end
